theory Spec2Isabelle
  imports Complex_Main "HOL-Library.Word"
begin

unbundle bit_operations_syntax

section \<open>Conventions of the embedding\<close>

text \<open>
  The theory embeds the spec interpreter of \<^verbatim>\<open>src/engine.js\<close>: the seeded generator,
  the layer sampler, the shape and predicate evaluator and the operation executor of
  \<^verbatim>\<open>Generate\<close>.

  \<^item> A JavaScript number is a \<open>real\<close> where the code has made sure it is finite, and a
    \<open>num\<close> (a real or \<open>NaN\<close>) where \<open>NaN\<close> can flow.  Arithmetic on reals is exact:
    rounding and overflow of doubles are not modelled.  The 32-bit state of the generator
    is a \<open>32 word\<close>, and its draws \<open>(h >>> 0) / 4294967296\<close> are exact in both worlds.
  \<^item> A string is a \<open>string\<close>; its characters stand for UTF-16 code units below 256.
  \<^item> A field that the code reads through \<open>Number.isFinite\<close> or \<open>Number(..) || d\<close> is a
    \<open>real option\<close>: \<open>Some r\<close> is the JSON number \<open>r\<close>, and \<open>None\<close> an absent field (for
    \<open>Number.isFinite\<close>, any value that is not a finite number behaves alike).
  \<^item> A raised \<open>Error\<close> is a value of type \<open>error\<close>; a function that can throw returns
    \<open>error + 'a\<close>.
  \<^item> Closure variables (\<open>width\<close>, \<open>height\<close>, \<open>reference\<close>, \<open>layers\<close>, \<open>baseNoise\<close>,
    \<open>bgIds\<close>, \<open>fgIds\<close>) are fields of a context record handed to the functions that
    read them.
  \<^item> The call stack and the memory are unbounded: a recursion of any depth returns.
\<close>

datatype error =
    TilesInvalid string
  | TooManyLayers
  | TooManyOps
  | UnknownLayer string
  | LayerCycle string
  | UnsupportedLayerType string string
  | UnknownBackground string
  | UnknownForeground string
  | PrefabsInvalid nat
  | UnsupportedOp string nat
  | TypeError

datatype num = NaN | Fin real

section \<open>Deterministic generator and noise\<close>

type_synonym u32 = "32 word"

text \<open>\<open>xfnv1a(str)\<close>: the FNV-1a loop gives the initial state \<open>h\<close> of the closure.\<close>

definition xfnv1a :: "string \<Rightarrow> u32" where
  "xfnv1a str = fold (\<lambda>c h. (h XOR of_char c) * 16777619) str 2166136261"

text \<open>One call of the closure: the new state, and the number it returns.\<close>

definition rng_step :: "u32 \<Rightarrow> u32" where
  "rng_step h =
     (let h1 = h + push_bit 13 h;
          h2 = h1 XOR drop_bit 7 h1;
          h3 = h2 + push_bit 3 h2;
          h4 = h3 XOR drop_bit 17 h3;
          h5 = h4 + push_bit 5 h4
      in h5)"

definition rng_val :: "u32 \<Rightarrow> real" where
  "rng_val h = real (unat h) / 4294967296"

text \<open>\<open>xfnv1a(str)()\<close>: the first draw of a fresh generator.\<close>

definition first_draw :: "string \<Rightarrow> real" where
  "first_draw str = rng_val (rng_step (xfnv1a str))"

definition clamp01 :: "real \<Rightarrow> real" where
  "clamp01 x = (if x < 0 then 0 else if x > 1 then 1 else x)"

text \<open>\<open>clamp01\<close> on a value that may be \<open>NaN\<close>: both comparisons fail and \<open>x\<close> is returned.\<close>

fun clamp01n :: "num \<Rightarrow> num" where
  "clamp01n NaN = NaN"
| "clamp01n (Fin x) = Fin (clamp01 x)"

text \<open>The Fisher-Yates loop \<open>for (i = 255; i > 0; i--)\<close> of \<open>makeValueNoise2D\<close>.\<close>

fun shuffle :: "nat \<Rightarrow> u32 \<Rightarrow> nat list \<Rightarrow> nat list" where
  "shuffle 0 h perm = perm"
| "shuffle (Suc k) h perm =
     (let i = Suc k;
          h' = rng_step h;
          j = nat \<lfloor>rng_val h' * real (i + 1)\<rfloor>;
          t = perm ! i
      in shuffle k h' (perm[i := perm ! j, j := t]))"

definition make_perm :: "u32 \<Rightarrow> nat list" where
  "make_perm h = (let perm = shuffle 255 h [0..<256] in perm @ perm)"

definition fade :: "real \<Rightarrow> real" where
  "fade t = t * t * t * (t * (t * 6 - 15) + 10)"

definition lerp :: "real \<Rightarrow> real \<Rightarrow> real \<Rightarrow> real" where
  "lerp a b t = a + (b - a) * t"

text \<open>\<open>iy & 255\<close> on an integer-valued number is the residue modulo 256.\<close>

definition grad :: "nat list \<Rightarrow> int \<Rightarrow> int \<Rightarrow> real" where
  "grad perm ix iy =
     (let v = perm ! nat ((ix + int (perm ! nat (iy mod 256))) mod 256)
      in (real v / 255) * 2 - 1)"

definition noise2D :: "nat list \<Rightarrow> real \<Rightarrow> real \<Rightarrow> real" where
  "noise2D perm x y =
     (let x0 = \<lfloor>x\<rfloor>; y0 = \<lfloor>y\<rfloor>;
          x1 = x0 + 1; y1 = y0 + 1;
          sx = fade (x - real_of_int x0); sy = fade (y - real_of_int y0);
          n00 = grad perm x0 y0; n10 = grad perm x1 y0;
          n01 = grad perm x0 y1; n11 = grad perm x1 y1;
          ix0 = lerp n00 n10 sx;
          ix1 = lerp n01 n11 sx;
          val = lerp ix0 ix1 sy
      in (val + 1) / 2)"

definition makeValueNoise2D :: "u32 \<Rightarrow> real \<Rightarrow> real \<Rightarrow> real" where
  "makeValueNoise2D h = noise2D (make_perm h)"

text \<open>The loop of \<open>octaveNoise\<close>, with its four running variables.\<close>

fun octave_loop ::
  "(real \<Rightarrow> real \<Rightarrow> real) \<Rightarrow> real \<Rightarrow> real \<Rightarrow> real \<Rightarrow> nat \<Rightarrow> real \<Rightarrow> real \<Rightarrow> real \<Rightarrow> real \<Rightarrow> real \<times> real"
where
  "octave_loop noiseFn x y persistence 0 amp freq acc nrm = (acc, nrm)"
| "octave_loop noiseFn x y persistence (Suc n) amp freq acc nrm =
     octave_loop noiseFn x y persistence n (amp * persistence) (freq * 2)
       (acc + noiseFn (x * freq) (y * freq) * amp) (nrm + amp)"

definition octaveNoise :: "(real \<Rightarrow> real \<Rightarrow> real) \<Rightarrow> real \<Rightarrow> real \<Rightarrow> int \<Rightarrow> real \<Rightarrow> real" where
  "octaveNoise noiseFn x y octaves persistence =
     (case octave_loop noiseFn x y persistence (nat octaves) 1 1 0 0 of
        (acc, nrm) \<Rightarrow> acc / (if nrm = 0 then 1 else nrm))"

section \<open>Validation helpers\<close>

definition safeInt :: "real option \<Rightarrow> int \<Rightarrow> int \<Rightarrow> int \<Rightarrow> int" where
  "safeInt n def lo hi =
     (let x = (case n of Some r \<Rightarrow> \<lfloor>r\<rfloor> | None \<Rightarrow> def) in max lo (min hi x))"

definition safeNum :: "real option \<Rightarrow> real \<Rightarrow> real \<Rightarrow> real \<Rightarrow> real" where
  "safeNum n def lo hi =
     (let x = (case n of Some r \<Rightarrow> r | None \<Rightarrow> def) in max lo (min hi x))"

text \<open>\<open>Number(v)\<close> of an optional numeric field, and \<open>v || d\<close> on its result.\<close>

fun Number :: "real option \<Rightarrow> num" where
  "Number None = NaN"
| "Number (Some r) = Fin r"

fun or_else :: "num \<Rightarrow> real \<Rightarrow> real" where
  "or_else NaN d = d"
| "or_else (Fin r) d = (if r = 0 then d else r)"

section \<open>Weighted choice\<close>

text \<open>
  \<open>pickWeighted(rng, items)\<close>.  The property read \<open>it.p\<close> is the parameter \<open>getp\<close>; the
  weight of an item is \<open>Math.max(0, Number(it.p ?? 1) || 0)\<close>.  \<open>items[i]\<close> outside the
  array is \<open>undefined\<close>, here \<open>None\<close>.  The function returns the chosen item and the state
  of the generator, which has advanced only if \<open>rng()\<close> was called.
\<close>

definition weight :: "real option \<Rightarrow> real" where
  "weight p = max 0 (or_else (Number (Some (case p of None \<Rightarrow> 1 | Some r \<Rightarrow> r))) 0)"

definition weight_sum :: "('a \<Rightarrow> real option) \<Rightarrow> 'a list \<Rightarrow> real" where
  "weight_sum getp items = fold (\<lambda>it acc. acc + weight (getp it)) items 0"

definition item_at :: "'a list \<Rightarrow> int \<Rightarrow> 'a option" where
  "item_at items i = (if 0 \<le> i \<and> i < int (length items) then Some (items ! nat i) else None)"

text \<open>The second loop, which returns from inside, followed by the last line.\<close>

fun scan :: "('a \<Rightarrow> real option) \<Rightarrow> real \<Rightarrow> 'a list \<Rightarrow> 'a option" where
  "scan getp t [] = None"
| "scan getp t (it # its) =
     (let t' = t - weight (getp it) in if t' \<le> 0 then Some it else scan getp t' its)"

definition scan_or_last :: "('a \<Rightarrow> real option) \<Rightarrow> real \<Rightarrow> 'a list \<Rightarrow> 'a option" where
  "scan_or_last getp t items =
     (case scan getp t items of
        Some it \<Rightarrow> Some it
      | None \<Rightarrow> item_at items (int (length items) - 1))"

definition pickWeighted :: "('a \<Rightarrow> real option) \<Rightarrow> u32 \<Rightarrow> 'a list \<Rightarrow> 'a option \<times> u32" where
  "pickWeighted getp h items =
     (let wsum = weight_sum getp items in
      if wsum \<le> 0 then (item_at items 0, h)
      else let h' = rng_step h; t = rng_val h' * wsum
           in (scan_or_last getp t items, h'))"

section \<open>Shapes\<close>

text \<open>
  A shape object by its \<open>kind\<close>.  \<open>ShapeRect rounded\<close> is kind \<open>rect\<close> or, with
  \<open>rounded\<close>, \<open>roundRect\<close>; \<open>ShapeOther\<close> is any other kind.  A point is a pair of
  numbers.  A \<open>points\<close> field that is not an array is the empty list; an element of
  \<open>points\<close> that is \<open>null\<close> or \<open>undefined\<close> is \<open>None\<close>: reading its coordinate throws a
  \<open>TypeError\<close>.  An endpoint of a line that is not an array is \<open>None\<close>.
\<close>

datatype shape =
    ShapeRect bool "real option" "real option" "real option" "real option" "real option"
  | ShapeCircle "real option" "real option" "real option"
  | ShapePolygon "(real \<times> real) option list"
  | ShapeLine "(real \<times> real) option" "(real \<times> real) option" "real option"
  | ShapeOther

text \<open>\<open>Math.hypot\<close> of two numbers, with the square root of the reals.\<close>

definition hypot :: "real \<Rightarrow> real \<Rightarrow> real" where
  "hypot a b = sqrt (a * a + b * b)"

text \<open>
  The ray-casting loop over the pairs \<open>(poly[i], poly[j])\<close>: \<open>j\<close> is the index before \<open>i\<close>,
  cyclically.  \<open>poly[i][0]\<close> is read first, then \<open>poly[j][0]\<close>; either throws when the point is
  \<open>null\<close>.
\<close>

fun poly_loop ::
  "((real \<times> real) option \<times> (real \<times> real) option) list \<Rightarrow> real \<Rightarrow> real \<Rightarrow> bool \<Rightarrow> error + bool" where
  "poly_loop [] x y inside = Inr inside"
| "poly_loop ((p, q) # ps) x y inside =
     (case p of
        None \<Rightarrow> Inl TypeError
      | Some (xi, yi) \<Rightarrow>
          (case q of
             None \<Rightarrow> Inl TypeError
           | Some (xj, yj) \<Rightarrow>
               (let intersect = ((yi > y) \<noteq> (yj > y)) \<and>
                      (x < (xj - xi) * (y - yi) / (if yj - yi = 0 then 1 / 10 ^ 9 else yj - yi) + xi)
                in poly_loop ps x y (if intersect then \<not> inside else inside))))"

definition pointInPoly :: "(real \<times> real) option list \<Rightarrow> real \<Rightarrow> real \<Rightarrow> error + bool" where
  "pointInPoly poly x y =
     poly_loop (zip poly (if poly = [] then [] else last poly # butlast poly)) x y False"

definition distPointToSegment ::
  "real \<Rightarrow> real \<Rightarrow> real \<Rightarrow> real \<Rightarrow> real \<Rightarrow> real \<Rightarrow> real" where
  "distPointToSegment px py ax ay bx by =
     (let abx = bx - ax; aby = by - ay;
          apx = px - ax; apy = py - ay;
          ab2 = abx * abx + aby * aby;
          t = (if ab2 \<noteq> 0 then max 0 (min 1 ((apx * abx + apy * aby) / ab2)) else 0);
          cx = ax + t * abx; cy = ay + t * aby
      in hypot (px - cx) (py - cy))"

fun shapeContains :: "shape option \<Rightarrow> real \<Rightarrow> real \<Rightarrow> error + bool" where
  "shapeContains None x y = Inr False"
| "shapeContains (Some (ShapeRect rounded sx sy sw sh sround)) x y =
     Inr (let rx = real_of_int (safeInt sx 0 (- (10 ^ 9)) (10 ^ 9));
              ry = real_of_int (safeInt sy 0 (- (10 ^ 9)) (10 ^ 9));
              rw = real_of_int (safeInt sw 0 0 (10 ^ 9));
              rh = real_of_int (safeInt sh 0 0 (10 ^ 9))
          in if rw \<le> 0 \<or> rh \<le> 0 then False
             else let round = safeNum (case sround of None \<Rightarrow> Some 0 | Some r \<Rightarrow> Some r) 0 0 (10 ^ 6)
                  in if round \<le> 0 \<or> \<not> rounded
                     then x \<ge> rx \<and> x < rx + rw \<and> y \<ge> ry \<and> y < ry + rh
                     else if \<not> (x \<ge> rx \<and> x < rx + rw \<and> y \<ge> ry \<and> y < ry + rh) then False
                     else let r = min round (min (rw / 2) (rh / 2));
                              left = rx + r; right = rx + rw - r;
                              top = ry + r; bottom = ry + rh - r
                          in if x \<ge> left \<and> x < right then True
                             else if y \<ge> top \<and> y < bottom then True
                             else let cx = (if x < left then left else right);
                                      cy = (if y < top then top else bottom)
                                  in hypot (x - cx) (y - cy) \<le> r)"
| "shapeContains (Some (ShapeCircle scx scy sr)) x y =
     Inr (let cx = safeNum scx 0 (- (10 ^ 9)) (10 ^ 9);
              cy = safeNum scy 0 (- (10 ^ 9)) (10 ^ 9);
              r = safeNum sr 0 0 (10 ^ 9)
          in hypot (x - cx) (y - cy) \<le> r)"
| "shapeContains (Some (ShapePolygon pts)) x y =
     (if length pts < 3 then Inr False else pointInPoly pts x y)"
| "shapeContains (Some (ShapeLine a b sthick)) x y =
     Inr (case (a, b) of
            (Some (ax, ay), Some (bx, by)) \<Rightarrow>
              let thickness = safeNum (case sthick of None \<Rightarrow> Some 1 | Some r \<Rightarrow> Some r) 1 (1 / 10) (10 ^ 6);
                  d = distPointToSegment x y ax ay bx by
              in d \<le> thickness / 2
          | _ \<Rightarrow> False)"
| "shapeContains (Some ShapeOther) x y = Inr False"

section \<open>Layers\<close>

text \<open>
  A layer definition by its \<open>type\<close>; \<open>LOther ty\<close> is any unsupported type.  An operand of a
  \<open>combine\<close> layer has an optional \<open>ref\<close> and an optional \<open>const\<close>; the parameter \<open>t\<close> is
  absent, a number or an array of numbers.
\<close>

datatype operand = Operand (o_ref: "string option") (o_const: "real option")

datatype tparam = TAbsent | TNum real | TArr "real list"

datatype layer =
    LConst "real option"
  | LFbm "real option" "real option" "real option" "string option"
  | LValueNoise "real option" "string option"
  | LRadial "real option" "real option" "real option" bool
  | LShape "shape option"
  | LCombine "string option" "operand option" "operand option" tparam
  | LOther string

record sctx =
  c_seed :: string
  c_width :: nat
  c_height :: nat
  c_layers :: "(string \<times> layer) list"
  c_baseNoise :: "real \<Rightarrow> real \<Rightarrow> real"

text \<open>\<open>Number(t)\<close> and \<open>Number(t[i])\<close> for the parameter of a \<open>combine\<close> layer.\<close>

fun Number_t :: "tparam \<Rightarrow> num" where
  "Number_t TAbsent = NaN"
| "Number_t (TNum r) = Fin r"
| "Number_t (TArr []) = Fin 0"
| "Number_t (TArr [r]) = Fin r"
| "Number_t (TArr (r # r' # rs)) = NaN"

definition Number_at :: "real list \<Rightarrow> nat \<Rightarrow> num" where
  "Number_at ts i = (if i < length ts then Fin (ts ! i) else NaN)"

fun lift2 :: "(real \<Rightarrow> real \<Rightarrow> real) \<Rightarrow> num \<Rightarrow> num \<Rightarrow> num" where
  "lift2 f (Fin a) (Fin b) = Fin (f a b)"
| "lift2 f _ _ = NaN"

fun lift1 :: "(real \<Rightarrow> real) \<Rightarrow> num \<Rightarrow> num" where
  "lift1 f (Fin a) = Fin (f a)"
| "lift1 f NaN = NaN"

definition combine :: "string \<Rightarrow> num \<Rightarrow> num \<Rightarrow> tparam \<Rightarrow> num" where
  "combine op a b t =
     (if op = ''add'' then clamp01n (lift2 (+) a b)
      else if op = ''sub'' then clamp01n (lift2 (-) a b)
      else if op = ''mul'' then clamp01n (lift2 (*) a b)
      else if op = ''min'' then lift2 min a b
      else if op = ''max'' then lift2 max a b
      else if op = ''lerp'' then
        (let tt = clamp01 (or_else (Number_t t) (1 / 2))
         in lift2 (\<lambda>a b. a + (b - a) * tt) a b)
      else if op = ''threshold'' then
        (case a of
           Fin r \<Rightarrow> if r \<ge> or_else (Number_t t) (1 / 2) then Fin 1 else Fin 0
         | NaN \<Rightarrow> Fin 0)
      else if op = ''smoothstep'' then
        (let e0 = (case t of TArr ts \<Rightarrow> Number_at ts 0 | _ \<Rightarrow> Fin (4 / 10));
             e1 = (case t of TArr ts \<Rightarrow> Number_at ts 1 | _ \<Rightarrow> Fin (6 / 10));
             d = or_else (lift2 (-) e1 e0) (1 / 10 ^ 9);
             x = clamp01n (lift2 (\<lambda>u v. u / v) (lift2 (-) a e0) (Fin d))
         in lift1 (\<lambda>x. x * x * (3 - 2 * x)) x)
      else a)"

text \<open>String concatenation with an integer-valued number: its decimal digits.\<close>

fun show_nat :: "nat \<Rightarrow> string" where
  "show_nat n = (if n < 10 then [char_of (48 + n)]
                 else show_nat (n div 10) @ [char_of (48 + n mod 10)])"

definition show_int :: "int \<Rightarrow> string" where
  "show_int i = (if i < 0 then CHR ''-'' # show_nat (nat (- i)) else show_nat (nat i))"

text \<open>
  \<open>layerOffset(seedKey)\<close>.  The memo table \<open>seedOffsets\<close> only saves recomputing a value
  that depends on \<open>seed\<close> and \<open>seedKey\<close> alone, so the model computes it at each call.
\<close>

definition layerOffset :: "string \<Rightarrow> string \<Rightarrow> int \<times> int" where
  "layerOffset seed seedKey =
     (let r = first_draw (seed @ ''|layer|'' @ seedKey);
          ox = \<lfloor>r * 20000\<rfloor>;
          oy = \<lfloor>first_draw (seed @ ''|layer2|'' @ seedKey) * 20000\<rfloor>
      in (ox, oy))"

text \<open>\<open>def.seed || name\<close>: an absent or empty seed gives the name.\<close>

definition seed_or :: "string option \<Rightarrow> string \<Rightarrow> string" where
  "seed_or sd d = (case sd of None \<Rightarrow> d | Some s \<Rightarrow> if s = [] then d else s)"

text \<open>\<open>def.a?.ref\<close> when it is truthy, and \<open>clamp01(Number(def.a?.const) || 0)\<close>.\<close>

definition operand_ref :: "operand option \<Rightarrow> string option" where
  "operand_ref a =
     (case a of
        None \<Rightarrow> None
      | Some opd \<Rightarrow> (case o_ref opd of None \<Rightarrow> None | Some r \<Rightarrow> if r = [] then None else Some r))"

definition operand_const :: "operand option \<Rightarrow> num" where
  "operand_const a =
     Fin (clamp01 (or_else (Number (case a of None \<Rightarrow> None | Some opd \<Rightarrow> o_const opd)) 0))"

definition visit_key :: "string \<Rightarrow> int \<Rightarrow> int \<Rightarrow> string" where
  "visit_key name x y = name @ ''@'' @ show_int x @ '','' @ show_int y"

text \<open>
  The value \<open>out\<close> of the layer types that do not refer to other layers; the sampler
  handles \<open>const\<close> and \<open>combine\<close> itself and never passes them here.
\<close>

fun sample_leaf :: "sctx \<Rightarrow> layer \<Rightarrow> string \<Rightarrow> int \<Rightarrow> int \<Rightarrow> error + num" where
  "sample_leaf c (LFbm sscale soct spers sseed) name x y =
     (let scale = safeNum sscale (1 / 100) (1 / 10 ^ 6) 1;
          octaves = safeInt soct 3 1 8;
          persistence = safeNum spers (1 / 2) (5 / 100) (95 / 100);
          off = layerOffset (c_seed c) (seed_or sseed name)
      in Inr (Fin (octaveNoise (c_baseNoise c)
                     ((real_of_int x + real_of_int (fst off)) * scale)
                     ((real_of_int y + real_of_int (snd off)) * scale)
                     octaves persistence)))"
| "sample_leaf c (LValueNoise sscale sseed) name x y =
     (let scale = safeNum sscale (1 / 100) (1 / 10 ^ 6) 1;
          off = layerOffset (c_seed c) (seed_or sseed name)
      in Inr (Fin (c_baseNoise c ((real_of_int x + real_of_int (fst off)) * scale)
                                 ((real_of_int y + real_of_int (snd off)) * scale))))"
| "sample_leaf c (LRadial scx scy sr invert) name x y =
     (let cx = safeNum scx (real (c_width c) / 2) (- (10 ^ 9)) (10 ^ 9);
          cy = safeNum scy (real (c_height c) / 2) (- (10 ^ 9)) (10 ^ 9);
          r = safeNum sr (real (min (c_width c) (c_height c)) / 2) 1 (10 ^ 9);
          v = 1 - min 1 (hypot (real_of_int x - cx) (real_of_int y - cy) / r)
      in Inr (Fin (if invert then 1 - v else v)))"
| "sample_leaf c (LShape sh) name x y =
     (case shapeContains sh (real_of_int x) (real_of_int y) of
        Inl e \<Rightarrow> Inl e
      | Inr b \<Rightarrow> Inr (Fin (if b then 1 else 0)))"
| "sample_leaf c (LOther ty) name x y = Inl (UnsupportedLayerType ty name)"
| "sample_leaf c _ name x y = Inr (Fin 0)"

text \<open>
  \<open>sampleLayer(name, x, y)\<close>, with the set \<open>visiting\<close> as an argument.  A call that returns
  has removed the key it added, so both operands of a \<open>combine\<close> layer are evaluated with
  the same set.  The cache \<open>cacheConst\<close> holds, for a name, the value computed from the
  unchanging definition of that name, and is not modelled.
\<close>

function sampleLayer :: "sctx \<Rightarrow> string set \<Rightarrow> string \<Rightarrow> int \<Rightarrow> int \<Rightarrow> error + num" where
  "sampleLayer c visiting name x y =
     (case map_of (c_layers c) name of
        None \<Rightarrow> Inl (UnknownLayer name)
      | Some def \<Rightarrow>
         (case def of
            LConst v \<Rightarrow> Inr (Fin (clamp01 (or_else (Number v) 0)))
          | LCombine sop a b t \<Rightarrow>
              if visit_key name x y \<in> visiting then Inl (LayerCycle name)
              else
                (case (case operand_ref a of
                         Some r \<Rightarrow> sampleLayer c (insert (visit_key name x y) visiting) r x y
                       | None \<Rightarrow> Inr (operand_const a)) of
                   Inl e \<Rightarrow> Inl e
                 | Inr av \<Rightarrow>
                    (case (case operand_ref b of
                             Some r \<Rightarrow> sampleLayer c (insert (visit_key name x y) visiting) r x y
                           | None \<Rightarrow> Inr (operand_const b)) of
                       Inl e \<Rightarrow> Inl e
                     | Inr bv \<Rightarrow> Inr (clamp01n (combine (seed_or sop ''mul'') av bv t))))
          | _ \<Rightarrow>
              if visit_key name x y \<in> visiting then Inl (LayerCycle name)
              else (case sample_leaf c def name x y of
                      Inl e \<Rightarrow> Inl e
                    | Inr out \<Rightarrow> Inr (clamp01n out))))"
  by pat_completeness auto

termination sampleLayer
proof -
  have dec: "card ((\<lambda>n. visit_key n x y) ` fst ` set ls - insert (visit_key name x y) vis)
               < card ((\<lambda>n. visit_key n x y) ` fst ` set ls - vis)"
    if def: "map_of ls name = Some d" and new: "visit_key name x y \<notin> vis"
    for ls :: "(string \<times> layer) list" and name d x y vis
  proof -
    let ?K = "(\<lambda>n. visit_key n x y) ` fst ` set ls"
    have "name \<in> fst ` set ls"
      using def by (metis map_of_SomeD image_eqI fst_conv)
    then have "visit_key name x y \<in> ?K - vis"
      using new by blast
    moreover have "?K - insert (visit_key name x y) vis = (?K - vis) - {visit_key name x y}"
      by blast
    moreover have "finite (?K - vis)"
      by simp
    ultimately show ?thesis
      by (metis card_Diff1_less)
  qed
  show ?thesis
    by (relation "measure (\<lambda>(c, vis, name, x, y).
           card ((\<lambda>n. visit_key n x y) ` fst ` set (c_layers c) - vis))")
       (auto intro: dec)
qed

text \<open>
  \<open>ctx.sampleLayer\<close> as the predicates call it: no call is in progress then, and the set
  is empty.
\<close>

definition sample :: "sctx \<Rightarrow> string \<Rightarrow> int \<Rightarrow> int \<Rightarrow> error + num" where
  "sample c name x y = sampleLayer c {} name x y"

section \<open>Predicates\<close>

text \<open>
  A predicate object by the first key that \<open>predTrue\<close> finds in it; \<open>POther\<close> is an
  object with none of the keys.  An absent predicate is \<open>None\<close> at the place that holds it.
\<close>

datatype pred =
    PAll "pred list"
  | PAny "pred list"
  | PNot pred
  | PLayerGt string real
  | PLayerLt string real
  | PLayerBetween string real real
  | PShape shape
  | PChance real "string option"
  | POther

fun num_gt :: "num \<Rightarrow> real \<Rightarrow> bool" where
  "num_gt NaN t = False"
| "num_gt (Fin v) t = (v > t)"

fun num_lt :: "num \<Rightarrow> real \<Rightarrow> bool" where
  "num_lt NaN t = False"
| "num_lt (Fin v) t = (v < t)"

fun num_ge :: "num \<Rightarrow> real \<Rightarrow> bool" where
  "num_ge NaN t = False"
| "num_ge (Fin v) t = (v \<ge> t)"

fun num_le :: "num \<Rightarrow> real \<Rightarrow> bool" where
  "num_le NaN t = False"
| "num_le (Fin v) t = (v \<le> t)"

fun pred_holds :: "sctx \<Rightarrow> pred \<Rightarrow> int \<Rightarrow> int \<Rightarrow> error + bool"
  and pred_every :: "sctx \<Rightarrow> pred list \<Rightarrow> int \<Rightarrow> int \<Rightarrow> error + bool"
  and pred_some :: "sctx \<Rightarrow> pred list \<Rightarrow> int \<Rightarrow> int \<Rightarrow> error + bool"
where
  "pred_holds c (PAll ps) x y = pred_every c ps x y"
| "pred_holds c (PAny ps) x y = pred_some c ps x y"
| "pred_holds c (PNot q) x y =
     (case pred_holds c q x y of Inl e \<Rightarrow> Inl e | Inr b \<Rightarrow> Inr (\<not> b))"
| "pred_holds c (PLayerGt name t) x y =
     (case sample c name x y of Inl e \<Rightarrow> Inl e | Inr v \<Rightarrow> Inr (num_gt v t))"
| "pred_holds c (PLayerLt name t) x y =
     (case sample c name x y of Inl e \<Rightarrow> Inl e | Inr v \<Rightarrow> Inr (num_lt v t))"
| "pred_holds c (PLayerBetween name a b) x y =
     (case sample c name x y of
        Inl e \<Rightarrow> Inl e
      | Inr v \<Rightarrow> Inr (num_ge v a \<and> num_le v b))"
| "pred_holds c (PShape sh) x y = shapeContains (Some sh) (real_of_int x) (real_of_int y)"
| "pred_holds c (PChance chance sd) x y =
     (let p = clamp01 (or_else (Number (Some chance)) 0);
          rr = first_draw (c_seed c @ ''|chance|'' @ seed_or sd [] @ ''|''
                             @ show_int x @ '','' @ show_int y)
      in Inr (rr < p))"
| "pred_holds c POther x y = Inr False"
| "pred_every c [] x y = Inr True"
| "pred_every c (q # qs) x y =
     (case pred_holds c q x y of
        Inl e \<Rightarrow> Inl e
      | Inr b \<Rightarrow> if b then pred_every c qs x y else Inr False)"
| "pred_some c [] x y = Inr False"
| "pred_some c (q # qs) x y =
     (case pred_holds c q x y of
        Inl e \<Rightarrow> Inl e
      | Inr b \<Rightarrow> if b then Inr True else pred_some c qs x y)"

text \<open>\<open>predTrue(pred, x, y, ctx)\<close>: an absent predicate holds.\<close>

definition predTrue :: "sctx \<Rightarrow> pred option \<Rightarrow> int \<Rightarrow> int \<Rightarrow> error + bool" where
  "predTrue c pr x y = (case pr of None \<Rightarrow> Inr True | Some q \<Rightarrow> pred_holds c q x y)"

section \<open>Tiles and their validation\<close>

text \<open>
  A tile has string fields \<open>id\<close>, \<open>name\<close>, \<open>color\<close> and a boolean \<open>walkable\<close>; a
  foreground tile also has a string \<open>symbol\<close>.  The \<open>typeof\<close> assertions of
  \<open>validateTiles\<close> hold by these types and the remaining ones are checked in its order.
\<close>

record tile =
  t_id :: string
  t_name :: string
  t_color :: string
  t_walkable :: bool

record fgtile = tile +
  t_symbol :: string

record tiles =
  background :: "tile list"
  foreground :: "fgtile list"

definition is_hex :: "char \<Rightarrow> bool" where
  "is_hex ch = (ch \<in> set ''0123456789abcdefABCDEF'')"

text \<open>\<open>HEX_RE = /^#[0-9a-fA-F]{6}$/\<close> and \<open>ID_RE = /^[a-z0-9][a-z0-9_-]{0,15}$/\<close>.\<close>

definition HEX_RE :: "string \<Rightarrow> bool" where
  "HEX_RE s = (case s of [] \<Rightarrow> False | ch # r \<Rightarrow> ch = CHR ''#'' \<and> length r = 6 \<and> list_all is_hex r)"

definition id_head :: "char \<Rightarrow> bool" where
  "id_head ch = (ch \<in> set ''abcdefghijklmnopqrstuvwxyz0123456789'')"

definition ID_RE :: "string \<Rightarrow> bool" where
  "ID_RE s =
     (case s of
        [] \<Rightarrow> False
      | ch # r \<Rightarrow> id_head ch \<and> length r \<le> 15 \<and>
                 list_all (\<lambda>k. id_head k \<or> k = CHR ''_'' \<or> k = CHR ''-'') r)"

fun uniqIds :: "string \<Rightarrow> ('a tile_scheme) list \<Rightarrow> string set \<Rightarrow> error + string set" where
  "uniqIds kind [] s = Inr s"
| "uniqIds kind (t # ts) s =
     (if \<not> ID_RE (t_id t) then Inl (TilesInvalid (kind @ '' tile.id invalid''))
      else if t_id t \<in> s then Inl (TilesInvalid (kind @ '' tile.id must be unique''))
      else uniqIds kind ts (insert (t_id t) s))"

text \<open>The first assertion that fails in a loop over the tiles, if any.\<close>

fun first_failure :: "('a \<Rightarrow> error option) \<Rightarrow> 'a list \<Rightarrow> error option" where
  "first_failure chk [] = None"
| "first_failure chk (t # ts) = (case chk t of Some e \<Rightarrow> Some e | None \<Rightarrow> first_failure chk ts)"

definition check_bg :: "tile \<Rightarrow> error option" where
  "check_bg t = (if \<not> HEX_RE (t_color t) then Some (TilesInvalid ''bg color must be hex'') else None)"

definition check_fg :: "fgtile \<Rightarrow> error option" where
  "check_fg t =
     (if \<not> (length (t_symbol t) \<ge> 1 \<and> length (t_symbol t) \<le> 4)
      then Some (TilesInvalid ''fg symbol must be short string'')
      else if \<not> HEX_RE (t_color t) then Some (TilesInvalid ''fg color must be hex'')
      else None)"

definition validateTiles :: "tiles \<Rightarrow> error + (string set \<times> string set)" where
  "validateTiles ts =
     (if \<not> length (background ts) \<ge> 1
      then Inl (TilesInvalid ''tiles.background must be a non-empty array'')
      else case first_failure check_bg (background ts) of
        Some e \<Rightarrow> Inl e
      | None \<Rightarrow>
         (case first_failure check_fg (foreground ts) of
            Some e \<Rightarrow> Inl e
          | None \<Rightarrow>
             (case uniqIds ''background'' (background ts) {} of
                Inl e \<Rightarrow> Inl e
              | Inr bgIds \<Rightarrow>
                 (case uniqIds ''foreground'' (foreground ts) {} of
                    Inl e \<Rightarrow> Inl e
                  | Inr fgIds \<Rightarrow> Inr (bgIds, fgIds)))))"

text \<open>
  \<open>readWhitelistChars()\<close> as a membership test; the content of the whitelist file is the
  parameter \<open>extra\<close>.  The loop over the foreground tiles then replaces each symbol.
\<close>

definition allowed :: "string \<Rightarrow> char \<Rightarrow> bool" where
  "allowed extra ch =
     (((32 \<le> (of_char ch :: nat) \<and> (of_char ch :: nat) \<le> 126) \<or> ch \<in> set extra) \<and>
      ch \<noteq> CHR 0x0A \<and> ch \<noteq> CHR 0x0D \<and> ch \<noteq> CHR 0x09)"

definition fallbacks :: string where
  "fallbacks = ''^*o@#~+x''"

definition sanitize_symbol :: "string \<Rightarrow> fgtile \<Rightarrow> fgtile" where
  "sanitize_symbol extra t =
     (case t_symbol t of
        [] \<Rightarrow> t
      | ch # r \<Rightarrow>
          if \<not> allowed extra ch
          then t\<lparr>t_symbol := [fallbacks ! ((length (t_id t) + of_char ch) mod length fallbacks)]\<rparr>
          else if length (t_symbol t) > 1 then t\<lparr>t_symbol := [ch]\<rparr>
          else t)"

section \<open>Operations\<close>

text \<open>
  A tile reference in an operation is absent, \<open>null\<close> or a string.  An entry of \<open>ops\<close> is
  \<open>null\<close>, a boolean, a number, a string or an object; an object carries the fields that
  the three operations read.  An entry that is an array is an object with none of them.
\<close>

datatype jsid = IdUndefined | IdNull | IdStr string

text \<open>
  The \<open>type\<close> field of an operation is any value: \<open>JUndefined\<close> when the field is absent,
  \<open>JInt n\<close> a number that is the integer \<open>n\<close> of magnitude below \<open>10^21\<close> (which \<open>String\<close>
  prints in decimal; other numbers are left out), \<open>JObj\<close> a plain object.  \<open>to_string\<close>
  is \<open>String(v)\<close>: an array is its elements joined by commas, an element that is \<open>null\<close>
  or \<open>undefined\<close> giving the empty string.
\<close>

datatype jsval = JUndefined | JNull | JBool bool | JInt int | JStr string | JArr "jsval list" | JObj

fun to_string :: "jsval \<Rightarrow> string" and join_elems :: "jsval list \<Rightarrow> string" where
  "to_string JUndefined = ''undefined''"
| "to_string JNull = ''null''"
| "to_string (JBool b) = (if b then ''true'' else ''false'')"
| "to_string (JInt n) = show_int n"
| "to_string (JStr s) = s"
| "to_string (JArr vs) = join_elems vs"
| "to_string JObj = ''[object Object]''"
| "join_elems [] = []"
| "join_elems (v # vs) =
     (if v = JUndefined \<or> v = JNull then [] else to_string v)
       @ (if vs = [] then [] else '','' @ join_elems vs)"

text \<open>The values that \<open>||\<close> replaces by its right operand.\<close>

definition falsy :: "jsval \<Rightarrow> bool" where
  "falsy v \<longleftrightarrow> v = JUndefined \<or> v = JNull \<or> v = JBool False \<or> v = JInt 0 \<or> v = JStr []"

text \<open>\<open>String(op.type || '')\<close>.\<close>

definition type_string :: "jsval \<Rightarrow> string" where
  "type_string v = (if falsy v then [] else to_string v)"

record prefab =
  pf_w :: "real option"
  pf_h :: "real option"
  pf_bg :: jsid
  pf_fg :: jsid
  pf_p :: "real option"

record inter =
  in_id :: jsid
  in_p :: "real option"
  in_seed :: "string option"

record op =
  op_type :: jsval
  op_where :: "pred option"
  op_bg :: jsid
  op_fg :: jsid
  op_origin :: "real list option"
  op_spacing :: "real option"
  op_thickness :: "real option"
  op_fgAtIntersections :: "inter option"
  op_seed :: "string option"
  op_count :: "real option"
  op_maxAttempts :: "real option"
  op_prefabs :: "prefab list"

datatype entry = ENull | EBool bool | ENum real | EStr string | EObj op

text \<open>The two grids, as lists of rows.\<close>

record grid =
  g_bg :: "string list list"
  g_fg :: "string option list list"

definition show_id :: "jsid \<Rightarrow> string" where
  "show_id i = (case i of IdUndefined \<Rightarrow> ''undefined'' | IdNull \<Rightarrow> ''null'' | IdStr s \<Rightarrow> s)"

text \<open>\<open>requireBg\<close> and \<open>requireFgOrNull\<close> return the checked reference.\<close>

definition requireBg :: "string set \<Rightarrow> jsid \<Rightarrow> error + string" where
  "requireBg bgIds i =
     (case i of
        IdStr s \<Rightarrow> if s \<in> bgIds then Inr s else Inl (UnknownBackground s)
      | _ \<Rightarrow> Inl (UnknownBackground (show_id i)))"

definition requireFgOrNull :: "string set \<Rightarrow> jsid \<Rightarrow> error + string option" where
  "requireFgOrNull fgIds i =
     (case i of
        IdNull \<Rightarrow> Inr None
      | IdStr s \<Rightarrow> if s \<in> fgIds then Inr (Some s) else Inl (UnknownForeground s)
      | IdUndefined \<Rightarrow> Inl (UnknownForeground (show_id i)))"

text \<open>A loop whose body can throw: the first error ends it.\<close>

fun foldE :: "('a \<Rightarrow> 's \<Rightarrow> error + 's) \<Rightarrow> 'a list \<Rightarrow> 's \<Rightarrow> error + 's" where
  "foldE f [] s = Inr s"
| "foldE f (a # as) s = (case f a s of Inl e \<Rightarrow> Inl e | Inr s' \<Rightarrow> foldE f as s')"

text \<open>
  The two nested loops over the grid that \<open>paint\<close> and \<open>roads.grid\<close> share: for each
  \<open>y\<close>, the rows \<open>rowBg = bgGrid[y]\<close> and \<open>rowFg = fgGrid[y]\<close> are updated cell by cell.
\<close>

type_synonym rows = "string list \<times> string option list"

definition for_cells ::
  "nat \<Rightarrow> nat \<Rightarrow> (nat \<Rightarrow> nat \<Rightarrow> rows \<Rightarrow> error + rows) \<Rightarrow> grid \<Rightarrow> error + grid" where
  "for_cells W H body g =
     foldE (\<lambda>y g. case foldE (\<lambda>x. body x y) [0..<W] (g_bg g ! y, g_fg g ! y) of
                     Inl e \<Rightarrow> Inl e
                   | Inr (rb, rf) \<Rightarrow> Inr (g\<lparr>g_bg := (g_bg g)[y := rb], g_fg := (g_fg g)[y := rf]\<rparr>))
       [0..<H] g"

subsection \<open>paint\<close>

definition paint_cell :: "sctx \<Rightarrow> op \<Rightarrow> nat \<Rightarrow> nat \<Rightarrow> rows \<Rightarrow> error + rows" where
  "paint_cell c p x y r =
     (case predTrue c (op_where p) (int x) (int y) of
        Inl e \<Rightarrow> Inl e
      | Inr b \<Rightarrow>
          if \<not> b then Inr r
          else Inr ((case op_bg p of IdStr s \<Rightarrow> (fst r)[x := s] | _ \<Rightarrow> fst r),
                    (case op_fg p of
                       IdUndefined \<Rightarrow> snd r
                     | IdNull \<Rightarrow> (snd r)[x := None]
                     | IdStr s \<Rightarrow> (snd r)[x := Some s])))"

definition paint :: "sctx \<Rightarrow> string set \<Rightarrow> string set \<Rightarrow> op \<Rightarrow> grid \<Rightarrow> error + grid" where
  "paint c bgIds fgIds p g =
     (case (if op_bg p \<noteq> IdUndefined \<and> op_bg p \<noteq> IdNull
            then requireBg bgIds (op_bg p) else Inr []) of
        Inl e \<Rightarrow> Inl e
      | Inr _ \<Rightarrow>
         (case (if op_fg p \<noteq> IdUndefined then requireFgOrNull fgIds (op_fg p) else Inr None) of
            Inl e \<Rightarrow> Inl e
          | Inr _ \<Rightarrow> for_cells (c_width c) (c_height c) (paint_cell c p) g))"

subsection \<open>roads.grid\<close>

text \<open>The remainder \<open>a % b\<close> of JavaScript takes the sign of \<open>a\<close>.\<close>

definition js_rem :: "int \<Rightarrow> int \<Rightarrow> int" where
  "js_rem a b = sgn a * (\<bar>a\<bar> mod \<bar>b\<bar>)"

text \<open>\<open>origin[i]\<close>: \<open>undefined\<close> beyond the end of the array.\<close>

definition origin_at :: "real list \<Rightarrow> nat \<Rightarrow> real option" where
  "origin_at origin i = (if i < length origin then Some (origin ! i) else None)"

record roads_env =
  r_bg :: string
  r_ox :: int
  r_oy :: int
  r_spacing :: int
  r_thickness :: int
  r_interId :: "string option"
  r_interP :: real
  r_interSeed :: string

definition roads_cell :: "sctx \<Rightarrow> op \<Rightarrow> roads_env \<Rightarrow> nat \<Rightarrow> nat \<Rightarrow> rows \<Rightarrow> error + rows" where
  "roads_cell c p e x y r =
     (let gy = js_rem (js_rem (int y - r_oy e) (r_spacing e) + r_spacing e) (r_spacing e) in
      case predTrue c (op_where p) (int x) (int y) of
        Inl err \<Rightarrow> Inl err
      | Inr b \<Rightarrow>
          if \<not> b then Inr r
          else
            let gx = js_rem (js_rem (int x - r_ox e) (r_spacing e) + r_spacing e) (r_spacing e);
                onV = gx < r_thickness e;
                onH = gy < r_thickness e
            in if \<not> (onV \<or> onH) then Inr r
               else Inr ((fst r)[x := r_bg e],
                         (case r_interId e of
                            Some i \<Rightarrow>
                              if i \<noteq> [] \<and> r_interP e > 0 \<and> onV \<and> onH
                              then (let rr = first_draw (c_seed c @ ''|roads|'' @ r_interSeed e
                                              @ ''|'' @ show_int (int x) @ '','' @ show_int (int y))
                                    in if rr < r_interP e then (snd r)[x := Some i] else snd r)
                              else snd r
                          | None \<Rightarrow> snd r)))"

definition roads_inter ::
  "string set \<Rightarrow> inter option \<Rightarrow> error + (string option \<times> real \<times> string)" where
  "roads_inter fgIds marker =
     (case marker of
        None \<Rightarrow> Inr (None, 0, [])
      | Some i \<Rightarrow>
         (case requireFgOrNull fgIds (if in_id i = IdUndefined then IdNull else in_id i) of
            Inl e \<Rightarrow> Inl e
          | Inr interId \<Rightarrow>
              Inr (interId, clamp01 (or_else (Number (in_p i)) 0), seed_or (in_seed i) [])))"

definition roads_env_of :: "op \<Rightarrow> string \<Rightarrow> string option \<times> real \<times> string \<Rightarrow> roads_env" where
  "roads_env_of p bg i =
     (let origin = (case op_origin p of Some a \<Rightarrow> a | None \<Rightarrow> [0, 0]);
          ox = safeInt (origin_at origin 0) 0 (- (10 ^ 9)) (10 ^ 9);
          oy = safeInt (origin_at origin 1) 0 (- (10 ^ 9)) (10 ^ 9);
          spacing = safeInt (op_spacing p) 20 2 200;
          thickness = safeInt (op_thickness p) 2 1 20
      in \<lparr>r_bg = bg, r_ox = ox, r_oy = oy, r_spacing = spacing, r_thickness = thickness,
          r_interId = fst i, r_interP = fst (snd i), r_interSeed = snd (snd i)\<rparr>)"

definition roads_grid :: "sctx \<Rightarrow> string set \<Rightarrow> string set \<Rightarrow> op \<Rightarrow> grid \<Rightarrow> error + grid" where
  "roads_grid c bgIds fgIds p g =
     (case requireBg bgIds (op_bg p) of
        Inl e \<Rightarrow> Inl e
      | Inr bg \<Rightarrow>
         (case roads_inter fgIds (op_fgAtIntersections p) of
            Inl e \<Rightarrow> Inl e
          | Inr i \<Rightarrow>
              for_cells (c_width c) (c_height c) (roads_cell c p (roads_env_of p bg i)) g))"

subsection \<open>stamp.scatter\<close>

text \<open>
  The validation loop overwrites \<open>pf.w\<close>, \<open>pf.h\<close> and \<open>pf.p\<close> of each prefab.  The
  overwritten prefab is an \<open>nprefab\<close>, whose sizes are integers and whose weight is a
  number; \<open>store_prefab\<close> is the object that the loop leaves in the array.
\<close>

record nprefab =
  n_w :: int
  n_h :: int
  n_bg :: jsid
  n_fg :: jsid
  n_p :: real

definition validate_prefab :: "string set \<Rightarrow> string set \<Rightarrow> prefab \<Rightarrow> error + nprefab" where
  "validate_prefab bgIds fgIds pf =
     (let w = safeInt (pf_w pf) 1 1 200;
          h = safeInt (pf_h pf) 1 1 200
      in case (if pf_bg pf \<noteq> IdUndefined \<and> pf_bg pf \<noteq> IdNull
               then requireBg bgIds (pf_bg pf) else Inr []) of
           Inl e \<Rightarrow> Inl e
         | Inr _ \<Rightarrow>
            (case (if pf_fg pf \<noteq> IdUndefined \<and> pf_fg pf \<noteq> IdNull
                   then requireFgOrNull fgIds (pf_fg pf) else Inr None) of
               Inl e \<Rightarrow> Inl e
             | Inr _ \<Rightarrow>
                 Inr \<lparr>n_w = w, n_h = h, n_bg = pf_bg pf, n_fg = pf_fg pf,
                      n_p = clamp01 (or_else
                              (Number (Some (case pf_p pf of None \<Rightarrow> 1 | Some r \<Rightarrow> r))) 0)\<rparr>))"

fun validate_prefabs :: "string set \<Rightarrow> string set \<Rightarrow> prefab list \<Rightarrow> error + nprefab list" where
  "validate_prefabs bgIds fgIds [] = Inr []"
| "validate_prefabs bgIds fgIds (pf # pfs) =
     (case validate_prefab bgIds fgIds pf of
        Inl e \<Rightarrow> Inl e
      | Inr n \<Rightarrow>
         (case validate_prefabs bgIds fgIds pfs of
            Inl e \<Rightarrow> Inl e
          | Inr ns \<Rightarrow> Inr (n # ns)))"

definition store_prefab :: "nprefab \<Rightarrow> prefab" where
  "store_prefab n =
     \<lparr>pf_w = Some (real_of_int (n_w n)), pf_h = Some (real_of_int (n_h n)),
      pf_bg = n_bg n, pf_fg = n_fg n, pf_p = Some (n_p n)\<rparr>"

text \<open>
  The occupancy array \<open>occ\<close> has one entry for each cell, at index \<open>y * width + x\<close>.
  \<open>canPlace\<close> returns false at the first occupied cell it meets.
\<close>

definition canPlace :: "nat \<Rightarrow> nat \<Rightarrow> bool list \<Rightarrow> int \<Rightarrow> int \<Rightarrow> int \<Rightarrow> int \<Rightarrow> bool" where
  "canPlace W H occ x0 y0 w h =
     (if x0 < 0 \<or> y0 < 0 \<or> x0 + w > int W \<or> y0 + h > int H then False
      else list_all (\<lambda>y. list_all (\<lambda>x. \<not> occ ! nat (y * int W + x)) [x0..x0 + w - 1])
             [y0..y0 + h - 1])"

definition markPlace :: "nat \<Rightarrow> bool list \<Rightarrow> int \<Rightarrow> int \<Rightarrow> int \<Rightarrow> int \<Rightarrow> bool list" where
  "markPlace W occ x0 y0 w h =
     fold (\<lambda>y occ. fold (\<lambda>x occ. occ[nat (y * int W + x) := True]) [x0..x0 + w - 1] occ)
       [y0..y0 + h - 1] occ"

text \<open>The loop that writes \<open>pf.bg\<close> over the footprint, row by row.\<close>

definition stamp_bg :: "string list list \<Rightarrow> int \<Rightarrow> int \<Rightarrow> int \<Rightarrow> int \<Rightarrow> string \<Rightarrow> string list list" where
  "stamp_bg bg x0 y0 w h s =
     fold (\<lambda>y bg. bg[nat y := fold (\<lambda>x row. row[nat x := s]) [x0..x0 + w - 1] (bg ! nat y)])
       [y0..y0 + h - 1] bg"

text \<open>
  The variables of the attempt loop.  \<open>st_log\<close> is not in the code: it lists the
  footprints \<open>(x0, y0, w, h)\<close> in the order in which the loop placed them.
\<close>

record sstate =
  st_rng :: u32
  st_occ :: "bool list"
  st_grid :: grid
  st_placed :: int
  st_log :: "(int \<times> int \<times> int \<times> int) list"

record scatter_env =
  e_where :: "pred option"
  e_count :: int
  e_maxAttempts :: int
  e_prefabs :: "nprefab list"

text \<open>
  One pass through the body of the attempt loop, in three parts: the draws, the two
  tests, and the writes of a placement.  \<open>Math.floor(w / 2)\<close> is \<open>w div 2\<close>.
\<close>

definition place :: "sctx \<Rightarrow> sstate \<Rightarrow> nprefab \<Rightarrow> int \<Rightarrow> int \<Rightarrow> sstate" where
  "place c st pf x0 y0 =
     (let w = n_w pf; h = n_h pf;
          cx = x0 + w div 2;
          cy = y0 + h div 2;
          g = st_grid st;
          bg' = (case n_bg pf of IdStr s \<Rightarrow> stamp_bg (g_bg g) x0 y0 w h s | _ \<Rightarrow> g_bg g);
          fg' = (case n_fg pf of
                   IdStr s \<Rightarrow> (g_fg g)[nat cy := (g_fg g ! nat cy)[nat cx := Some s]]
                 | _ \<Rightarrow> g_fg g)
      in st\<lparr>st_grid := \<lparr>g_bg = bg', g_fg = fg'\<rparr>,
            st_occ := markPlace (c_width c) (st_occ st) x0 y0 w h,
            st_placed := st_placed st + 1,
            st_log := st_log st @ [(x0, y0, w, h)]\<rparr>)"

definition try_place ::
  "sctx \<Rightarrow> scatter_env \<Rightarrow> sstate \<Rightarrow> nprefab \<Rightarrow> int \<Rightarrow> int \<Rightarrow> error + sstate" where
  "try_place c env st pf x0 y0 =
     (case predTrue c (e_where env) (x0 + n_w pf div 2) (y0 + n_h pf div 2) of
        Inl e \<Rightarrow> Inl e
      | Inr b \<Rightarrow>
          if \<not> b then Inr st
          else if \<not> canPlace (c_width c) (c_height c) (st_occ st) x0 y0 (n_w pf) (n_h pf)
          then Inr st
          else Inr (place c st pf x0 y0))"

definition scatter_attempt :: "sctx \<Rightarrow> scatter_env \<Rightarrow> sstate \<Rightarrow> error + sstate" where
  "scatter_attempt c env st =
     (let pick = pickWeighted (\<lambda>pf. Some (n_p pf)) (st_rng st) (e_prefabs env) in
      case fst pick of
        None \<Rightarrow> Inl TypeError
      | Some pf \<Rightarrow>
          (let h2 = rng_step (snd pick);
               x0 = \<lfloor>rng_val h2 * real_of_int (int (c_width c) - n_w pf + 1)\<rfloor>;
               h3 = rng_step h2;
               y0 = \<lfloor>rng_val h3 * real_of_int (int (c_height c) - n_h pf + 1)\<rfloor>
           in try_place c env (st\<lparr>st_rng := h3\<rparr>) pf x0 y0))"

text \<open>
  \<open>for (attempt = 0; attempt < maxAttempts && placed < count; attempt++)\<close>: the result
  is the value of \<open>attempt\<close> when the loop ends, and the variables then.
\<close>

function scatter_loop :: "sctx \<Rightarrow> scatter_env \<Rightarrow> int \<Rightarrow> sstate \<Rightarrow> error + (int \<times> sstate)" where
  "scatter_loop c env attempt st =
     (if attempt < e_maxAttempts env \<and> st_placed st < e_count env
      then (case scatter_attempt c env st of
              Inl e \<Rightarrow> Inl e
            | Inr st' \<Rightarrow> scatter_loop c env (attempt + 1) st')
      else Inr (attempt, st))"
  by pat_completeness auto

termination scatter_loop
  by (relation "measure (\<lambda>(c, env, attempt, st). nat (e_maxAttempts env - attempt))") auto

definition scatter_run ::
  "sctx \<Rightarrow> string set \<Rightarrow> string set \<Rightarrow> op \<Rightarrow> grid \<Rightarrow> error + (nprefab list \<times> int \<times> sstate)" where
  "scatter_run c bgIds fgIds p g =
     (let seed = seed_or (op_seed p) ''scatter'';
          count = safeInt (op_count p) 200 1 200000;
          maxAttempts = safeInt (op_maxAttempts p) (count * 10) 1 400000;
          prefabs = op_prefabs p
      in if \<not> (length prefabs \<ge> 1 \<and> length prefabs \<le> 128)
         then Inl (PrefabsInvalid (length prefabs))
         else case validate_prefabs bgIds fgIds prefabs of
                Inl e \<Rightarrow> Inl e
              | Inr ns \<Rightarrow>
                 (case scatter_loop c
                         \<lparr>e_where = op_where p, e_count = count, e_maxAttempts = maxAttempts,
                          e_prefabs = ns\<rparr> 0
                         \<lparr>st_rng = xfnv1a (c_seed c @ ''|scatter|'' @ seed),
                          st_occ = replicate (c_width c * c_height c) False,
                          st_grid = g, st_placed = 0, st_log = []\<rparr> of
                    Inl e \<Rightarrow> Inl e
                  | Inr r \<Rightarrow> Inr (ns, r)))"

text \<open>The operation: the grid it leaves, and the object with its overwritten prefabs.\<close>

definition stamp_scatter ::
  "sctx \<Rightarrow> string set \<Rightarrow> string set \<Rightarrow> op \<Rightarrow> grid \<Rightarrow> error + (grid \<times> op)" where
  "stamp_scatter c bgIds fgIds p g =
     (case scatter_run c bgIds fgIds p g of
        Inl e \<Rightarrow> Inl e
      | Inr (ns, attempts, st) \<Rightarrow> Inr (st_grid st, p\<lparr>op_prefabs := map store_prefab ns\<rparr>))"

subsection \<open>The loop over the operations\<close>

definition exec_op ::
  "sctx \<Rightarrow> string set \<Rightarrow> string set \<Rightarrow> nat \<Rightarrow> entry \<Rightarrow> grid \<Rightarrow> error + (grid \<times> entry)" where
  "exec_op c bgIds fgIds opIndex en g =
     (case en of
        EObj p \<Rightarrow>
          let type = type_string (op_type p) in
          if type = ''paint'' then
            (case paint c bgIds fgIds p g of Inl e \<Rightarrow> Inl e | Inr g' \<Rightarrow> Inr (g', en))
          else if type = ''roads.grid'' then
            (case roads_grid c bgIds fgIds p g of Inl e \<Rightarrow> Inl e | Inr g' \<Rightarrow> Inr (g', en))
          else if type = ''stamp.scatter'' then
            (case stamp_scatter c bgIds fgIds p g of
               Inl e \<Rightarrow> Inl e
             | Inr (g', p') \<Rightarrow> Inr (g', EObj p'))
          else Inl (UnsupportedOp type opIndex)
      | _ \<Rightarrow> Inr (g, en))"

fun exec_ops ::
  "sctx \<Rightarrow> string set \<Rightarrow> string set \<Rightarrow> nat \<Rightarrow> entry list \<Rightarrow> grid \<Rightarrow> error + (grid \<times> entry list)"
where
  "exec_ops c bgIds fgIds opIndex [] g = Inr (g, [])"
| "exec_ops c bgIds fgIds opIndex (en # ens) g =
     (case exec_op c bgIds fgIds opIndex en g of
        Inl e \<Rightarrow> Inl e
      | Inr (g', en') \<Rightarrow>
         (case exec_ops c bgIds fgIds (Suc opIndex) ens g' of
            Inl e \<Rightarrow> Inl e
          | Inr (g'', ens') \<Rightarrow> Inr (g'', en' # ens')))"

section \<open>Generate\<close>

text \<open>
  The core of \<open>Generate\<close>, from the statement that fixes the world size to the composed
  output.  Its inputs are the spec document, the reference string and the content
  \<open>extra\<close> of the whitelist file; fetching the spec and writing the output file are
  outside.  The code overwrites \<open>spec.world\<close>, the foreground symbols and the prefabs of
  the spec object, so the result is the output together with that object as it is left.
\<close>

record world =
  w_width :: int
  w_height :: int
  w_metersPerCell :: real

record spec =
  s_world :: world
  s_tiles :: tiles
  s_layers :: "(string \<times> layer) list"
  s_ops :: "entry list"

record area =
  a_width :: nat
  a_height :: nat
  a_cells :: "(string \<times> string option) list list"

record world_output =
  o_tiles :: tiles
  o_area :: area

definition width :: nat where
  "width = 200"

definition height :: nat where
  "height = 200"

definition init_grid :: "nat \<Rightarrow> nat \<Rightarrow> string \<Rightarrow> grid" where
  "init_grid W H defaultBg =
     \<lparr>g_bg = replicate H (replicate W defaultBg), g_fg = replicate H (replicate W None)\<rparr>"

definition compose_cells :: "nat \<Rightarrow> nat \<Rightarrow> grid \<Rightarrow> (string \<times> string option) list list" where
  "compose_cells W H g = map (\<lambda>y. map (\<lambda>x. (g_bg g ! y ! x, g_fg g ! y ! x)) [0..<W]) [0..<H]"

definition make_ctx :: "string \<Rightarrow> (string \<times> layer) list \<Rightarrow> sctx" where
  "make_ctx reference ls =
     \<lparr>c_seed = reference, c_width = width, c_height = height, c_layers = ls,
      c_baseNoise = makeValueNoise2D (xfnv1a reference)\<rparr>"

definition sanitize :: "string \<Rightarrow> tiles \<Rightarrow> tiles" where
  "sanitize extra ts = ts\<lparr>foreground := map (sanitize_symbol extra) (foreground ts)\<rparr>"

definition make_output :: "tiles \<Rightarrow> grid \<Rightarrow> world_output" where
  "make_output ts g =
     \<lparr>o_tiles = ts,
      o_area = \<lparr>a_width = width, a_height = height, a_cells = compose_cells width height g\<rparr>\<rparr>"

definition generate :: "string \<Rightarrow> spec \<Rightarrow> string \<Rightarrow> error + (world_output \<times> spec)" where
  "generate extra sp reference =
     (case validateTiles (s_tiles sp) of
        Inl e \<Rightarrow> Inl e
      | Inr ids \<Rightarrow>
          if \<not> length (remdups (map fst (s_layers sp))) \<le> 128 then Inl TooManyLayers
          else if \<not> length (s_ops sp) \<le> 256 then Inl TooManyOps
          else
            (case exec_ops (make_ctx reference (s_layers sp)) (fst ids) (snd ids) 0 (s_ops sp)
                    (init_grid width height (t_id (background (s_tiles sp) ! 0))) of
               Inl e \<Rightarrow> Inl e
             | Inr r \<Rightarrow>
                 Inr (make_output (sanitize extra (s_tiles sp)) (fst r),
                      sp\<lparr>s_world := \<lparr>w_width = int width, w_height = int height,
                                       w_metersPerCell = 1\<rparr>,
                         s_tiles := sanitize extra (s_tiles sp), s_ops := snd r\<rparr>)))"

section \<open>The reference graph of the layers\<close>

text \<open>
  \<open>layer_refs ls n\<close> lists the names that the \<open>combine\<close> layer \<open>n\<close> samples, \<open>ref_rel\<close> is
  the relation "refers to", and a layer references itself, directly or through a chain,
  when it is related to itself by the transitive closure.  \<open>null_point_polygon d\<close> says
  that \<open>d\<close> is a \<open>shape\<close> layer whose shape is a polygon of at least three points, one of
  them \<open>null\<close>: sampling it throws a \<open>TypeError\<close>.  \<open>closed_from ls n\<close> says that every layer
  reachable from \<open>n\<close> is defined, of a supported type and not such a polygon, and
  \<open>other_error ls n e\<close> that \<open>e\<close> is the error of an undefined layer, of an unsupported
  layer or of such a polygon reachable from \<open>n\<close>.
\<close>

definition layer_refs :: "(string \<times> layer) list \<Rightarrow> string \<Rightarrow> string list" where
  "layer_refs ls n =
     (case map_of ls n of
        Some (LCombine sop a b t) \<Rightarrow>
          (case operand_ref a of Some r \<Rightarrow> [r] | None \<Rightarrow> []) @
          (case operand_ref b of Some r \<Rightarrow> [r] | None \<Rightarrow> [])
      | _ \<Rightarrow> [])"

definition ref_rel :: "(string \<times> layer) list \<Rightarrow> (string \<times> string) set" where
  "ref_rel ls = {(n, m). m \<in> set (layer_refs ls n)}"

fun null_point_polygon :: "layer \<Rightarrow> bool" where
  "null_point_polygon (LShape (Some (ShapePolygon pts))) \<longleftrightarrow> 3 \<le> length pts \<and> None \<in> set pts"
| "null_point_polygon _ \<longleftrightarrow> False"



section \<open>Notions used to state the properties\<close>

text \<open>
  A cell is on a road of \<open>roads.grid\<close> when its column or its row, taken from the origin
  and modulo the spacing, is below the thickness.
\<close>

definition on_road :: "roads_env \<Rightarrow> nat \<Rightarrow> nat \<Rightarrow> bool" where
  "on_road e x y \<longleftrightarrow>
     (int x - r_ox e) mod r_spacing e < r_thickness e \<or>
     (int y - r_oy e) mod r_spacing e < r_thickness e"

text \<open>
  A pair of rows, and a grid, is well formed when it has the size of the world, every
  background entry is a background id and every foreground entry is \<open>null\<close> or a
  foreground id.
\<close>

definition row_ok :: "nat \<Rightarrow> string set \<Rightarrow> string set \<Rightarrow> rows \<Rightarrow> bool" where
  "row_ok W bgIds fgIds r \<longleftrightarrow>
     length (fst r) = W \<and> length (snd r) = W \<and> set (fst r) \<subseteq> bgIds \<and>
     (\<forall>s. Some s \<in> set (snd r) \<longrightarrow> s \<in> fgIds)"

definition grid_ok :: "nat \<Rightarrow> nat \<Rightarrow> string set \<Rightarrow> string set \<Rightarrow> grid \<Rightarrow> bool" where
  "grid_ok W H bgIds fgIds g \<longleftrightarrow>
     length (g_bg g) = H \<and> length (g_fg g) = H \<and>
     (\<forall>y < H. row_ok W bgIds fgIds (g_bg g ! y, g_fg g ! y))"

text \<open>
  The cells that a placement \<open>(x0, y0, w, h)\<close> covers, and the placements that lie inside
  the grid.  \<open>scatter_inv\<close> is what holds of the variables of the attempt loop each time
  its condition is tested.
\<close>

definition footprint :: "int \<times> int \<times> int \<times> int \<Rightarrow> (int \<times> int) set" where
  "footprint f = (case f of (x0, y0, w, h) \<Rightarrow> {(x, y). x0 \<le> x \<and> x < x0 + w \<and> y0 \<le> y \<and> y < y0 + h})"

definition in_grid :: "nat \<Rightarrow> nat \<Rightarrow> int \<times> int \<times> int \<times> int \<Rightarrow> bool" where
  "in_grid W H f = (case f of (x0, y0, w, h) \<Rightarrow> 0 \<le> x0 \<and> 0 \<le> y0 \<and> x0 + w \<le> int W \<and> y0 + h \<le> int H)"

definition scatter_inv :: "nat \<Rightarrow> nat \<Rightarrow> int \<Rightarrow> int \<Rightarrow> int \<Rightarrow> sstate \<Rightarrow> bool" where
  "scatter_inv W H count maxAttempts attempt st \<longleftrightarrow>
     length (st_occ st) = W * H \<and>
     st_placed st = int (length (st_log st)) \<and>
     st_placed st \<le> count \<and> st_placed st \<le> attempt \<and> attempt \<le> maxAttempts \<and>
     (\<forall>f \<in> set (st_log st). in_grid W H f) \<and>
     (\<forall>x y. 0 \<le> x \<and> x < int W \<and> 0 \<le> y \<and> y < int H \<longrightarrow>
        (st_occ st ! nat (y * int W + x) \<longleftrightarrow> (\<exists>f \<in> set (st_log st). (x, y) \<in> footprint f))) \<and>
     (\<forall>i < length (st_log st). \<forall>j < length (st_log st). i \<noteq> j \<longrightarrow>
        footprint (st_log st ! i) \<inter> footprint (st_log st ! j) = {})"

section \<open>Example inputs\<close>

definition flat_ctx :: "(string \<times> layer) list \<Rightarrow> sctx" where
  "flat_ctx ls = \<lparr>c_seed = ''seed'', c_width = 200, c_height = 200, c_layers = ls,
                  c_baseNoise = (\<lambda>x y. 0)\<rparr>"

definition threshold_zero :: "(string \<times> layer) list" where
  "threshold_zero =
     [(''th'', LCombine (Some ''threshold'') (Some (Operand None (Some (2 / 10))))
                 (Some (Operand None (Some 0))) (TNum 0))]"

definition smoothstep_empty :: "(string \<times> layer) list" where
  "smoothstep_empty =
     [(''s'', LCombine (Some ''smoothstep'') (Some (Operand None (Some (1 / 2)))) None (TArr []))]"



definition two_prefabs :: "nprefab list" where
  "two_prefabs =
     [\<lparr>n_w = 1, n_h = 1, n_bg = IdUndefined, n_fg = IdStr ''fg0'', n_p = 0\<rparr>,
      \<lparr>n_w = 2, n_h = 2, n_bg = IdUndefined, n_fg = IdStr ''fg1'', n_p = 0\<rparr>]"

definition empty_op :: op where
  "empty_op =
     \<lparr>op_type = JUndefined, op_where = None, op_bg = IdUndefined, op_fg = IdUndefined,
      op_origin = None, op_spacing = None, op_thickness = None,
      op_fgAtIntersections = None, op_seed = None, op_count = None,
      op_maxAttempts = None, op_prefabs = []\<rparr>"

definition tiny_grid :: grid where
  "tiny_grid = init_grid 2 2 ''bg0''"

definition roads_op :: op where
  "roads_op = empty_op\<lparr>op_type := JStr ''roads.grid'', op_bg := IdStr ''road'',
                op_origin := Some [0, 0], op_spacing := Some 20, op_thickness := Some 2\<rparr>"

definition scenario :: "world \<Rightarrow> spec" where
  "scenario wreq =
     \<lparr>s_world = wreq,
      s_tiles = \<lparr>background = [\<lparr>t_id = ''bg0'', t_name = ''BG 0'', t_color = ''#101010'',
                                t_walkable = True\<rparr>],
                 foreground = []\<rparr>,
      s_layers = [],
      s_ops = [EObj (empty_op\<lparr>op_type := JStr ''paint'', op_bg := IdStr ''bg0''\<rparr>)]\<rparr>"

definition scenario_output :: world_output where
  "scenario_output =
     \<lparr>o_tiles = s_tiles (scenario \<lparr>w_width = 4, w_height = 4, w_metersPerCell = 1\<rparr>),
      o_area = \<lparr>a_width = 200, a_height = 200,
                 a_cells = replicate 200 (replicate 200 (''bg0'', None))\<rparr>\<rparr>"



definition tiny_ctx :: sctx where
  "tiny_ctx = \<lparr>c_seed = ''seed'', c_width = 2, c_height = 2, c_layers = [],
               c_baseNoise = (\<lambda>x y. 0)\<rparr>"

definition scatter_op :: op where
  "scatter_op = empty_op\<lparr>op_type := JStr ''stamp.scatter'', op_count := Some 3,
                  op_maxAttempts := Some 2,
                  op_prefabs := [\<lparr>pf_w = Some 2, pf_h = Some 2, pf_bg = IdStr ''bg0'',
                                  pf_fg = IdNull, pf_p = None\<rparr>]\<rparr>"

definition scatter_zero :: op where
  "scatter_zero = scatter_op\<lparr>op_count := Some 0\<rparr>"

definition wide_ctx :: sctx where
  "wide_ctx = \<lparr>c_seed = ''seed'', c_width = 4, c_height = 2, c_layers = [],
               c_baseNoise = (\<lambda>x y. 0)\<rparr>"

definition wide_grid :: grid where
  "wide_grid = init_grid 4 2 ''bg0''"

definition scatter_pair :: op where
  "scatter_pair = empty_op\<lparr>op_type := JStr ''stamp.scatter'', op_count := Some 2,
                    op_maxAttempts := Some 5,
                    op_prefabs := [\<lparr>pf_w = Some 2, pf_h = Some 1, pf_bg = IdStr ''bg1'',
                                    pf_fg = IdNull, pf_p = None\<rparr>]\<rparr>"

definition null_polygon_loop :: "(string \<times> layer) list" where
  "null_polygon_loop =
     [(''P'', LShape (Some (ShapePolygon [None, None, None]))),
      (''L'', LCombine None (Some (Operand (Some ''P'') None))
                (Some (Operand (Some ''L'') None)) TAbsent)]"

section \<open>Properties of the layer sampler\<close>

declare sampleLayer.simps [simp del]








lemma poly_loop_null:
  "None \<in> fst ` set ps \<Longrightarrow> poly_loop ps x y b = Inl TypeError"
proof (induction ps arbitrary: b)
  case Nil
  then show ?case by simp
next
  case (Cons pq ps)
  obtain p q where pq: "pq = (p, q)" by (cases pq)
  show ?case
  proof (cases "p = None \<or> q = None")
    case True
    then show ?thesis
      by (auto simp: pq split: option.splits)
  next
    case False
    then have "None \<in> fst ` set ps"
      using Cons.prems by (auto simp: pq)
    from Cons.IH [OF this] show ?thesis
      using False by (auto simp: pq Let_def split: option.splits)
  qed
qed

lemma null_point_polygon_fails:
  assumes "null_point_polygon d"
  shows "sample_leaf c d n x y = Inl TypeError"
proof -
  obtain pts where d: "d = LShape (Some (ShapePolygon pts))"
    and pts: "3 \<le> length pts" "None \<in> set pts"
    using assms by (cases d rule: null_point_polygon.cases) auto
  let ?prev = "if pts = [] then [] else last pts # butlast pts"
  have "length ?prev = length pts"
    using pts(1) by (cases pts) auto
  then have "map fst (zip pts ?prev) = pts"
    by (simp only: map_fst_zip)
  then have "fst ` set (zip pts ?prev) = set pts"
    by (metis set_map)
  then have "pointInPoly pts (real_of_int x) (real_of_int y) = Inl TypeError"
    using pts(2) by (simp only: pointInPoly_def poly_loop_null)
  then show ?thesis
    using pts(1) by (simp add: d)
qed





lemma sampleLayer_range:
  "sampleLayer c vis n x y = Inr v \<Longrightarrow> v = NaN \<or> (\<exists>r. v = Fin r \<and> 0 \<le> r \<and> r \<le> 1)"
proof -
  have cl: "\<And>u. clamp01n u = NaN \<or> (\<exists>r. clamp01n u = Fin r \<and> 0 \<le> r \<and> r \<le> 1)"
    by (case_tac u) (auto simp: clamp01_def)
  assume "sampleLayer c vis n x y = Inr v"
  then show ?thesis
    using cl
    by (subst (asm) sampleLayer.simps)
       (auto simp: clamp01_def split: option.splits layer.splits if_splits sum.splits)
qed







text \<open>
  So does it on a layer \<open>L\<close> whose first operand refers to a polygon with \<open>null\<close> points
  and whose second operand refers to \<open>L\<close>: the polygon is sampled first and throws.
\<close>

lemma null_polygon_before_cycle:
  "(''L'', ''L'') \<in> (ref_rel (c_layers (flat_ctx null_polygon_loop)))\<^sup>+ \<and>
   sampleLayer (flat_ctx null_polygon_loop) {} ''L'' 0 0 = Inl TypeError"
proof -
  have "(''L'', ''L'') \<in> ref_rel null_polygon_loop"
    by (simp add: ref_rel_def layer_refs_def null_polygon_loop_def operand_ref_def)
  then have "(''L'', ''L'') \<in> (ref_rel (c_layers (flat_ctx null_polygon_loop)))\<^sup>+"
    by (simp add: flat_ctx_def)
  moreover have "sampleLayer (flat_ctx null_polygon_loop) {} ''L'' 0 0 = Inl TypeError"
    by (simp add: sampleLayer.simps flat_ctx_def null_polygon_loop_def operand_ref_def
          visit_key_def pointInPoly_def)
  ultimately show ?thesis by simp
qed



text \<open>
  C5.  The sampler ends with \<open>clamp01(out)\<close>, which returns \<open>NaN\<close> unchanged
  (\<open>sampleLayer_range\<close>: a returned value is in the unit interval or is \<open>NaN\<close>).  A
  \<open>combine\<close> layer with operator \<open>smoothstep\<close> whose parameter is the empty array reads its
  edges as \<open>Number(undefined)\<close>, and the sampler returns \<open>NaN\<close> for it.
\<close>

theorem smoothstep_nan:
  "sampleLayer (flat_ctx smoothstep_empty) {} ''s'' 0 0 = Inr NaN"
  by (simp add: combine_def sampleLayer.simps flat_ctx_def smoothstep_empty_def operand_ref_def
        operand_const_def seed_or_def clamp01_def Number_at_def)

text \<open>
  C9.  The operator \<open>threshold\<close> compares its first operand with \<open>Number(t) || 0.5\<close>, so
  it is the step function at \<open>t\<close> for every number \<open>t\<close> but zero, and at one half when
  \<open>t\<close> is absent (\<open>threshold_step\<close>).  With \<open>t = 0\<close> and the operand \<open>0.2\<close> the code
  compares with one half and returns \<open>0\<close>, where the step function at \<open>0\<close> is \<open>1\<close>.
\<close>

theorem threshold_at_zero:
  "combine ''threshold'' (Fin (2 / 10)) (Fin 0) (TNum 0) = Fin 0 \<and>
   sampleLayer (flat_ctx threshold_zero) {} ''th'' 0 0 = Inr (Fin 0)"
  by (simp add: combine_def sampleLayer.simps flat_ctx_def threshold_zero_def operand_ref_def
        operand_const_def seed_or_def clamp01_def)

lemma threshold_step:
  "combine ''threshold'' (Fin a) b (TNum t) =
     (if a \<ge> (if t = 0 then 1 / 2 else t) then Fin 1 else Fin 0)"
  "combine ''threshold'' (Fin a) b TAbsent = (if a \<ge> 1 / 2 then Fin 1 else Fin 0)"
  by (simp_all add: combine_def)

section \<open>Properties of the weighted choice\<close>

lemma weight_nonneg: "0 \<le> weight p"
  by (simp add: weight_def)

lemma fold_weight:
  "fold (\<lambda>it acc. acc + weight (getp it)) items a =
     a + sum_list (map (\<lambda>it. weight (getp it)) items)"
  by (induction items arbitrary: a) auto

lemma weight_sum_list: "weight_sum getp items = sum_list (map (\<lambda>it. weight (getp it)) items)"
  by (simp add: weight_sum_def fold_weight)

lemma scan_exhausted:
  "sum_list (map (\<lambda>it. weight (getp it)) items) < t \<Longrightarrow> scan getp t items = None"
proof (induction items arbitrary: t)
  case Nil
  then show ?case by simp
next
  case (Cons it items)
  have "0 \<le> sum_list (map (\<lambda>it. weight (getp it)) items)"
    by (rule sum_list_nonneg) (auto simp: weight_nonneg)
  with Cons.prems have "t - weight (getp it) > 0" by simp
  moreover have "sum_list (map (\<lambda>it. weight (getp it)) items) < t - weight (getp it)"
    using Cons.prems by simp
  ultimately show ?case
    using Cons.IH by (simp add: Let_def)
qed

lemma item_at_first: "items \<noteq> [] \<Longrightarrow> item_at items 0 = Some (hd items)"
  by (cases items) (auto simp: item_at_def)

lemma item_at_last: "items \<noteq> [] \<Longrightarrow> item_at items (int (length items) - 1) = Some (last items)"
  by (cases items rule: rev_cases) (auto simp: item_at_def nth_append)

text \<open>
  C8, as amended.  For a non-empty list whose weights sum to zero, and for every state
  of the random stream, \<open>pickWeighted\<close> returns the first item of the list and leaves the
  stream as it was.  The last item is what the scan returns when it reaches the end of
  the list with the remainder still positive, that is, when it starts above the sum of
  the weights.
\<close>

theorem pickWeighted_fallbacks:
  assumes "items \<noteq> []"
  shows "(weight_sum getp items \<le> 0 \<longrightarrow> pickWeighted getp h items = (Some (hd items), h)) \<and>
         (weight_sum getp items < t \<longrightarrow> scan_or_last getp t items = Some (last items))"
  using assms
  by (simp add: pickWeighted_def scan_or_last_def scan_exhausted weight_sum_list
        item_at_first item_at_last)

text \<open>Two prefabs of weight zero: the choice is the first, not the last.\<close>

theorem pickWeighted_zero_counterexample:
  "weight_sum (\<lambda>pf. Some (n_p pf)) two_prefabs = 0 \<and>
   fst (pickWeighted (\<lambda>pf. Some (n_p pf)) 0 two_prefabs) \<noteq> Some (last two_prefabs)"
  by (simp add: pickWeighted_def weight_sum_def weight_def two_prefabs_def item_at_def)

theorem pickWeighted_fallbacks_witness:
  "two_prefabs \<noteq> [] \<and> weight_sum (\<lambda>pf. Some (n_p pf)) two_prefabs \<le> 0 \<and>
   pickWeighted (\<lambda>pf. Some (n_p pf)) 7 two_prefabs = (Some (hd two_prefabs), 7) \<and>
   weight_sum (\<lambda>pf. Some (n_p pf)) two_prefabs < 1 \<and>
   scan_or_last (\<lambda>pf. Some (n_p pf)) 1 two_prefabs = Some (last two_prefabs)"
proof -
  have ne: "two_prefabs \<noteq> []" by (simp add: two_prefabs_def)
  have z: "weight_sum (\<lambda>pf. Some (n_p pf)) two_prefabs = 0"
    by (simp add: weight_sum_def weight_def two_prefabs_def)
  show ?thesis
    using pickWeighted_fallbacks [OF ne, of "\<lambda>pf. Some (n_p pf)" 7 1] ne z by simp
qed

section \<open>Properties of the operation executor\<close>




section \<open>Loops over the grid\<close>

lemma foldE_append:
  "foldE f (xs @ ys) s = (case foldE f xs s of Inl e \<Rightarrow> Inl e | Inr s' \<Rightarrow> foldE f ys s')"
  by (induction xs arbitrary: s) (auto split: sum.splits)

lemma foldE_upt_inv:
  assumes "foldE f [0..<n] s = Inr s'"
    and "I 0 s"
    and "\<And>k t t'. k < n \<Longrightarrow> I k t \<Longrightarrow> f k t = Inr t' \<Longrightarrow> I (Suc k) t'"
  shows "I n s'"
  using assms
proof (induction n arbitrary: s')
  case 0
  then show ?case by simp
next
  case (Suc n)
  from Suc.prems(1) obtain t where t: "foldE f [0..<n] s = Inr t" and last: "f n t = Inr s'"
    by (auto simp: foldE_append split: sum.splits)
  have "I n t"
    by (rule Suc.IH [OF t Suc.prems(2)]) (simp add: Suc.prems(3))
  then show ?case
    using Suc.prems(3) [of n t s'] last by simp
qed

lemma foldE_total:
  assumes "\<And>a t. a \<in> set xs \<Longrightarrow> \<exists>t'. f a t = Inr t'"
  shows "\<exists>s'. foldE f xs s = Inr s'"
  using assms
proof (induction xs arbitrary: s)
  case Nil
  then show ?case by simp
next
  case (Cons a xs)
  obtain t where "f a s = Inr t" using Cons.prems [of a s] by auto
  moreover obtain s' where "foldE f xs t = Inr s'" using Cons.IH [of t] Cons.prems by auto
  ultimately show ?case by simp
qed

text \<open>for_cells: rows are handled independently.\<close>

lemma for_cells_rows:
  assumes run: "for_cells W H body g = Inr g'"
    and len: "length (g_bg g) = H" "length (g_fg g) = H"
    and row: "\<And>y rb rf. y < H \<Longrightarrow>
                foldE (\<lambda>x. body x y) [0..<W] (g_bg g ! y, g_fg g ! y) = Inr (rb, rf) \<Longrightarrow>
                R y rb rf"
  shows "length (g_bg g') = H \<and> length (g_fg g') = H \<and>
         (\<forall>y < H. R y (g_bg g' ! y) (g_fg g' ! y))"
proof -
  let ?step = "\<lambda>y g. case foldE (\<lambda>x. body x y) [0..<W] (g_bg g ! y, g_fg g ! y) of
                     Inl e \<Rightarrow> Inl e
                   | Inr (rb, rf) \<Rightarrow> Inr (g\<lparr>g_bg := (g_bg g)[y := rb], g_fg := (g_fg g)[y := rf]\<rparr>)"
  let ?I = "\<lambda>k t. length (g_bg t) = H \<and> length (g_fg t) = H \<and>
              (\<forall>y < H. if y < k then R y (g_bg t ! y) (g_fg t ! y)
                        else g_bg t ! y = g_bg g ! y \<and> g_fg t ! y = g_fg g ! y)"
  have "?I H g'"
  proof (rule foldE_upt_inv [where f = ?step and I = ?I and s = g])
    show "foldE ?step [0..<H] g = Inr g'"
      using run by (simp add: for_cells_def)
    show "?I 0 g" using len by simp
  next
    fix k and t t' :: grid
    assume k: "k < H" and I: "?I k t" and st: "?step k t = Inr t'"
    from I k have same: "g_bg t ! k = g_bg g ! k" "g_fg t ! k = g_fg g ! k"
      by auto
    from st obtain rb rf where r: "foldE (\<lambda>x. body x k) [0..<W] (g_bg g ! k, g_fg g ! k) = Inr (rb, rf)"
      and t': "t' = t\<lparr>g_bg := (g_bg t)[k := rb], g_fg := (g_fg t)[k := rf]\<rparr>"
      by (auto simp: same split: sum.splits prod.splits)
    have Rk: "R k rb rf" by (rule row [OF k r])
    show "?I (Suc k) t'"
      using I k Rk by (auto simp: t' nth_list_update less_Suc_eq)
  qed
  then show ?thesis by auto
qed

lemma for_cells_total:
  assumes "\<And>x y r. \<exists>r'. body x y r = Inr r'"
  shows "\<exists>g'. for_cells W H body g = Inr g'"
  unfolding for_cells_def
proof (rule foldE_total)
  fix y and t :: grid
  obtain r where "foldE (\<lambda>x. body x y) [0..<W] (g_bg t ! y, g_fg t ! y) = Inr r"
    using foldE_total [of "[0..<W]" "\<lambda>x. body x y"] assms by blast
  then show "\<exists>t'. (case foldE (\<lambda>x. body x y) [0..<W] (g_bg t ! y, g_fg t ! y) of
             Inl e \<Rightarrow> Inl e
           | Inr (rb, rf) \<Rightarrow> Inr (t\<lparr>g_bg := (g_bg t)[y := rb], g_fg := (g_fg t)[y := rf]\<rparr>)) = Inr t'"
    by (cases r) simp
qed

lemma js_rem_pos: "0 < b \<Longrightarrow> 0 < s \<Longrightarrow> js_rem b s = b mod s"
  by (simp add: js_rem_def)

lemma js_rem_wrap: "0 < s \<Longrightarrow> js_rem (js_rem a s + s) s = a mod s"
proof (cases "0 \<le> a")
  case True
  assume s: "0 < s"
  let ?m = "a mod s"
  have m: "0 \<le> ?m" using s by simp
  have r: "js_rem a s = ?m"
    using True s by (cases "a = 0") (simp_all add: js_rem_def)
  have pos: "0 < ?m + s" using m s by linarith
  have "js_rem (?m + s) s = (?m + s) mod s"
    by (rule js_rem_pos [OF pos s])
  then show ?thesis using r by simp
next
  case False
  assume s: "0 < s"
  let ?m = "(- a) mod s"
  have m: "0 \<le> ?m" "?m < s" using s by simp_all
  from False s have r: "js_rem a s = - ?m"
    by (simp add: js_rem_def)
  have pos: "0 < - ?m + s" using m by linarith
  have "js_rem (- ?m + s) s = (- ?m + s) mod s"
    by (rule js_rem_pos [OF pos s])
  also have "\<dots> = (- ?m) mod s" by simp
  also have "\<dots> = (- (- a)) mod s" by (simp add: mod_minus_eq)
  finally show ?thesis using r by simp
qed



section \<open>Properties of roads.grid\<close>

lemma roads_cell_ungated:
  assumes "op_where p = None" and "0 < r_spacing e" and "roads_cell c p e x y r = Inr r'"
  shows "fst r' = (if on_road e x y then (fst r)[x := r_bg e] else fst r)"
  using assms
  by (auto simp: roads_cell_def predTrue_def Let_def js_rem_wrap on_road_def
        split: option.splits if_splits)

lemma roads_row:
  assumes w: "op_where p = None" and s: "0 < r_spacing e"
    and run: "foldE (\<lambda>x. roads_cell c p e x y) [0..<W] (rb, rf) = Inr (rb', rf')"
    and len: "length rb = W"
  shows "length rb' = W \<and> (\<forall>x < W. rb' ! x = (if on_road e x y then r_bg e else rb ! x))"
proof -
  let ?I = "\<lambda>k t. length (fst t) = W \<and>
              (\<forall>x < W. fst t ! x = (if x < k \<and> on_road e x y then r_bg e else rb ! x))"
  have "?I W (rb', rf')"
  proof (rule foldE_upt_inv [where I = ?I, OF run])
    show "?I 0 (rb, rf)" using len by simp
  next
    fix k t t'
    assume k: "k < W" and I: "?I k t" and st: "roads_cell c p e k y t = Inr t'"
    have "fst t' = (if on_road e k y then (fst t)[k := r_bg e] else fst t)"
      by (rule roads_cell_ungated [OF w s st])
    then show "?I (Suc k) t'"
      using I k by (auto simp: nth_list_update less_Suc_eq)
  qed
  then show ?thesis by simp
qed

lemma roads_cells_ungated:
  assumes w: "op_where p = None" and s: "0 < r_spacing e"
    and run: "for_cells W H (roads_cell c p e) g = Inr g'"
    and dims: "length (g_bg g) = H" "length (g_fg g) = H" "\<forall>row \<in> set (g_bg g). length row = W"
  shows "\<forall>y < H. \<forall>x < W. g_bg g' ! y ! x = (if on_road e x y then r_bg e else g_bg g ! y ! x)"
proof -
  let ?R = "\<lambda>y rb' (rf' :: string option list).
              \<forall>x < W. rb' ! x = (if on_road e x y then r_bg e else g_bg g ! y ! x)"
  have "length (g_bg g') = H \<and> length (g_fg g') = H \<and> (\<forall>y < H. ?R y (g_bg g' ! y) (g_fg g' ! y))"
  proof (rule for_cells_rows [OF run dims(1,2)])
    fix y rb rf
    assume y: "y < H"
      and r: "foldE (\<lambda>x. roads_cell c p e x y) [0..<W] (g_bg g ! y, g_fg g ! y) = Inr (rb, rf)"
    have "length (g_bg g ! y) = W"
      using dims y by simp
    from roads_row [OF w s r this] show "?R y rb rf" by simp
  qed
  then show ?thesis by simp
qed

lemma roads_cell_total:
  assumes "op_where p = None"
  shows "\<exists>r'. roads_cell c p e x y r = Inr r'"
  using assms by (simp add: roads_cell_def predTrue_def Let_def)


text \<open>
  C7.  A \<open>roads.grid\<close> operation with spacing 20, thickness 2, origin \<open>[0, 0]\<close>, no gate
  predicate and a valid background id does not throw, and it sets the background of
  exactly the cells with \<open>x mod 20 < 2\<close> or \<open>y mod 20 < 2\<close> to that id: every other cell
  keeps its background.
\<close>

theorem roads_periodicity:
  assumes "op_spacing p = Some 20" and "op_thickness p = Some 2"
    and "op_origin p = Some [0, 0]" and "op_where p = None"
    and "op_bg p = IdStr road" and "road \<in> bgIds"
    and "roads_inter fgIds (op_fgAtIntersections p) = Inr m"
    and "length (g_bg g) = c_height c" and "length (g_fg g) = c_height c"
    and "\<forall>row \<in> set (g_bg g). length row = c_width c"
  shows "\<exists>g'. roads_grid c bgIds fgIds p g = Inr g' \<and>
           (\<forall>y < c_height c. \<forall>x < c_width c.
              g_bg g' ! y ! x = (if x mod 20 < 2 \<or> y mod 20 < 2 then road else g_bg g ! y ! x))"
proof -
  let ?e = "roads_env_of p road m"
  have env: "r_bg ?e = road" "r_ox ?e = 0" "r_oy ?e = 0" "r_spacing ?e = 20" "r_thickness ?e = 2"
    using assms(1-3) by (simp_all add: roads_env_of_def safeInt_def origin_at_def)
  have on: "on_road ?e x y \<longleftrightarrow> x mod 20 < 2 \<or> y mod 20 < 2" for x y
  proof -
    have "int x mod 20 = int (x mod 20)" "int y mod 20 = int (y mod 20)"
      by (simp_all add: zmod_int)
    then show ?thesis
      by (simp add: on_road_def env)
  qed
  obtain g' where run: "for_cells (c_width c) (c_height c) (roads_cell c p ?e) g = Inr g'"
    using for_cells_total [of "roads_cell c p ?e"] roads_cell_total [OF assms(4)] by blast
  have rg: "roads_grid c bgIds fgIds p g = Inr g'"
    using assms(5-7) run by (simp add: roads_grid_def requireBg_def)
  have "0 < r_spacing ?e" by (simp add: env)
  from roads_cells_ungated [OF assms(4) this run assms(8-10)]
  show ?thesis
    using rg by (simp add: on env(1))
qed

theorem roads_periodicity_witness:
  "op_spacing roads_op = Some 20 \<and> op_thickness roads_op = Some 2 \<and>
   op_origin roads_op = Some [0, 0] \<and> op_where roads_op = None \<and>
   op_bg roads_op = IdStr ''road'' \<and> ''road'' \<in> {''bg0'', ''road''} \<and>
   roads_inter {} (op_fgAtIntersections roads_op) = Inr (None, 0, []) \<and>
   (\<exists>g'. roads_grid (flat_ctx []) {''bg0'', ''road''} {} roads_op (init_grid 200 200 ''bg0'') = Inr g' \<and>
         g_bg g' ! 0 ! 0 = ''road'' \<and> g_bg g' ! 40 ! 7 = ''road'' \<and> g_bg g' ! 5 ! 21 = ''road'' \<and>
         g_bg g' ! 5 ! 7 = ''bg0'' \<and> g_bg g' ! 199 ! 199 = ''bg0'')"
proof -
  have h: "op_spacing roads_op = Some 20" "op_thickness roads_op = Some 2"
    "op_origin roads_op = Some [0, 0]" "op_where roads_op = None"
    "op_bg roads_op = IdStr ''road''" "''road'' \<in> {''bg0'', ''road''}"
    "roads_inter {} (op_fgAtIntersections roads_op) = Inr (None, 0, [])"
    by (simp_all add: roads_op_def empty_op_def roads_inter_def)
  have d: "length (g_bg (init_grid 200 200 ''bg0'')) = c_height (flat_ctx [])"
    "length (g_fg (init_grid 200 200 ''bg0'')) = c_height (flat_ctx [])"
    "\<forall>row \<in> set (g_bg (init_grid 200 200 ''bg0'')). length row = c_width (flat_ctx [])"
    by (simp_all add: init_grid_def flat_ctx_def)
  from roads_periodicity [OF h d]
  obtain g' where g': "roads_grid (flat_ctx []) {''bg0'', ''road''} {} roads_op (init_grid 200 200 ''bg0'') = Inr g'"
    and cells: "\<forall>y < c_height (flat_ctx []). \<forall>x < c_width (flat_ctx []).
              g_bg g' ! y ! x = (if x mod 20 < 2 \<or> y mod 20 < 2 then ''road''
                                 else g_bg (init_grid 200 200 ''bg0'') ! y ! x)"
    by blast
  have w: "c_height (flat_ctx []) = 200" "c_width (flat_ctx []) = 200"
    by (simp_all add: flat_ctx_def)
  have "g_bg g' ! 0 ! 0 = ''road''" "g_bg g' ! 40 ! 7 = ''road''" "g_bg g' ! 5 ! 21 = ''road''"
    "g_bg g' ! 5 ! 7 = ''bg0''" "g_bg g' ! 199 ! 199 = ''bg0''"
    using cells by (simp_all add: w init_grid_def)
  then show ?thesis
    using h g' by blast
qed

section \<open>Properties of paint\<close>

lemma compose_init: "compose_cells W H (init_grid W H b) = replicate H (replicate W (b, None))"
  by (auto simp: compose_cells_def init_grid_def list_eq_iff_nth_eq)

lemma paint_row_same:
  assumes "op_where p = None" and "op_bg p = IdStr b" and "op_fg p = IdUndefined"
    and "foldE (\<lambda>x. paint_cell c p x y) [0..<W] (replicate W b, rf) = Inr r"
  shows "r = (replicate W b, rf)"
proof -
  have "(\<lambda>(k::nat) t. t = (replicate W b, rf)) W r"
  proof (rule foldE_upt_inv [where I = "\<lambda>(k::nat) t. t = (replicate W b, rf)", OF assms(4)])
    fix k t t'
    assume "k < W" and "t = (replicate W b, rf)" and "paint_cell c p k y t = Inr t'"
    then show "t' = (replicate W b, rf)"
      using assms(1-3) by (auto simp: paint_cell_def predTrue_def list_update_same_conv)
  qed simp
  then show ?thesis by simp
qed

lemma paint_cell_total: "op_where p = None \<Longrightarrow> \<exists>r'. paint_cell c p x y r = Inr r'"
  by (simp add: paint_cell_def predTrue_def)

lemma paint_same:
  assumes "op_where p = None" and "op_bg p = IdStr b" and "op_fg p = IdUndefined"
    and "b \<in> bgIds" and "c_width c = W" and "c_height c = H"
  shows "paint c bgIds fgIds p (init_grid W H b) = Inr (init_grid W H b)"
proof -
  let ?g = "init_grid W H b"
  obtain g' where run: "for_cells W H (paint_cell c p) ?g = Inr g'"
    using for_cells_total [of "paint_cell c p"] paint_cell_total [OF assms(1)] by blast
  let ?R = "\<lambda>(y::nat) rb rf. rb = replicate W b \<and> rf = replicate W (None :: string option)"
  have "length (g_bg g') = H \<and> length (g_fg g') = H \<and> (\<forall>y < H. ?R y (g_bg g' ! y) (g_fg g' ! y))"
  proof (rule for_cells_rows [OF run])
    fix y rb rf
    assume "y < H"
      and "foldE (\<lambda>x. paint_cell c p x y) [0..<W] (g_bg ?g ! y, g_fg ?g ! y) = Inr (rb, rf)"
    then show "?R y rb rf"
      using paint_row_same [OF assms(1-3), of c y W "replicate W None" "(rb, rf)"]
      by (simp add: init_grid_def)
  qed (simp_all add: init_grid_def)
  then have "g_bg g' = g_bg ?g" "g_fg g' = g_fg ?g"
    by (auto simp: init_grid_def list_eq_iff_nth_eq)
  then have "g' = ?g" by simp
  then show ?thesis
    using run assms(2,4,5,6) by (simp add: paint_def requireBg_def assms(3))
qed

section \<open>The size of the output\<close>

lemma scenario_tiles_valid:
  "validateTiles (s_tiles (scenario wreq)) = Inr ({''bg0''}, {})"
  by (simp add: validateTiles_def scenario_def check_bg_def HEX_RE_def is_hex_def ID_RE_def
        id_head_def)

lemma scenario_run:
  "generate extra (scenario wreq) reference =
     Inr (scenario_output, scenario \<lparr>w_width = 200, w_height = 200, w_metersPerCell = 1\<rparr>)"
proof -
  let ?p = "empty_op\<lparr>op_type := JStr ''paint'', op_bg := IdStr ''bg0''\<rparr>"
  let ?c = "make_ctx reference []"
  have p: "paint ?c {''bg0''} {} ?p (init_grid width height ''bg0'') = Inr (init_grid width height ''bg0'')"
    by (rule paint_same) (simp_all add: empty_op_def make_ctx_def)
  have ops: "exec_ops ?c {''bg0''} {} 0 [EObj ?p] (init_grid width height ''bg0'')
               = Inr (init_grid width height ''bg0'', [EObj ?p])"
    using p by (simp add: exec_op_def type_string_def falsy_def empty_op_def)
  show ?thesis
    using ops
    by (simp add: generate_def scenario_tiles_valid)
       (simp add: scenario_def make_output_def sanitize_def compose_init scenario_output_def
          width_def height_def)
qed


text \<open>
  C3, as amended.  The code fixes the world size to 200 by 200 whatever the spec
  requests.  Every output has \<open>area.width = 200\<close>, \<open>area.height = 200\<close> and 200 rows of
  200 cells.  For the spec with the single background tile \<open>bg0\<close>, no foreground tiles, no
  layers and the single operation \<open>paint\<close> with no predicate and background \<open>bg0\<close>, for
  every requested size and every reference, the output is the 200 by 200 array whose
  every entry is \<open>(bg0, null)\<close>.
\<close>

theorem generate_fixed_size:
  "(generate extra sp reference = Inr (out, sp') \<longrightarrow>
      a_width (o_area out) = 200 \<and> a_height (o_area out) = 200 \<and>
      length (a_cells (o_area out)) = 200 \<and>
      (\<forall>row \<in> set (a_cells (o_area out)). length row = 200)) \<and>
   generate extra (scenario wreq) reference =
     Inr (scenario_output, scenario \<lparr>w_width = 200, w_height = 200, w_metersPerCell = 1\<rparr>)"
proof -
  have "a_width (o_area out) = 200 \<and> a_height (o_area out) = 200 \<and>
      length (a_cells (o_area out)) = 200 \<and>
      (\<forall>row \<in> set (a_cells (o_area out)). length row = 200)"
    if "generate extra sp reference = Inr (out, sp')"
  proof -
    from that obtain g where "out = make_output (sanitize extra (s_tiles sp)) g"
      by (auto simp: generate_def split: sum.splits if_splits)
    then show ?thesis
      by (auto simp: make_output_def compose_cells_def width_def height_def)
  qed
  then show ?thesis
    using scenario_run by blast
qed

text \<open>On a requested 4 by 4 grid the area is not the 4 by 4 array of the claim.\<close>

theorem generate_fixed_size_counterexample:
  "map_sum id (o_area \<circ> fst)
     (generate [] (scenario \<lparr>w_width = 4, w_height = 4, w_metersPerCell = 1\<rparr>) ''seed'')
   \<noteq> Inr \<lparr>a_width = 4, a_height = 4, a_cells = replicate 4 (replicate 4 (''bg0'', None))\<rparr>"
  by (simp add: scenario_run scenario_output_def)

theorem generate_fixed_size_witness:
  "generate [] (scenario \<lparr>w_width = 4, w_height = 4, w_metersPerCell = 1\<rparr>) ''seed'' =
     Inr (scenario_output, scenario \<lparr>w_width = 200, w_height = 200, w_metersPerCell = 1\<rparr>) \<and>
   a_width (o_area scenario_output) = 200 \<and> a_height (o_area scenario_output) = 200 \<and>
   length (a_cells (o_area scenario_output)) = 200 \<and>
   a_cells (o_area scenario_output) ! 3 ! 3 = (''bg0'', None)"
  using generate_fixed_size [of "[]" "scenario \<lparr>w_width = 4, w_height = 4, w_metersPerCell = 1\<rparr>"
          "''seed''" scenario_output
          "scenario \<lparr>w_width = 200, w_height = 200, w_metersPerCell = 1\<rparr>"
          "\<lparr>w_width = 4, w_height = 4, w_metersPerCell = 1\<rparr>"]
  by (simp add: scenario_output_def)

section \<open>The operations keep the grid well formed\<close>


lemma row_ok_bg_update:
  "row_ok W bgIds fgIds r \<Longrightarrow> s \<in> bgIds \<Longrightarrow> row_ok W bgIds fgIds ((fst r)[x := s], snd r)"
  using set_update_subset_insert [of "fst r" x s] by (auto simp: row_ok_def)

lemma row_ok_fg_update:
  "row_ok W bgIds fgIds r \<Longrightarrow> (\<forall>s. v = Some s \<longrightarrow> s \<in> fgIds) \<Longrightarrow>
   row_ok W bgIds fgIds (fst r, (snd r)[x := v])"
  using set_update_subset_insert [of "snd r" x v] by (auto simp: row_ok_def)

lemma init_grid_ok: "b \<in> bgIds \<Longrightarrow> grid_ok W H bgIds fgIds (init_grid W H b)"
  by (auto simp: grid_ok_def row_ok_def init_grid_def)

lemma for_cells_ok:
  assumes run: "for_cells W H body g = Inr g'"
    and ok: "grid_ok W H bgIds fgIds g"
    and cell: "\<And>x y r r'. row_ok W bgIds fgIds r \<Longrightarrow> body x y r = Inr r' \<Longrightarrow>
                 row_ok W bgIds fgIds r'"
  shows "grid_ok W H bgIds fgIds g'"
proof -
  have "length (g_bg g') = H \<and> length (g_fg g') = H \<and>
        (\<forall>y < H. (\<lambda>(y::nat) rb rf. row_ok W bgIds fgIds (rb, rf)) y (g_bg g' ! y) (g_fg g' ! y))"
  proof (rule for_cells_rows [OF run])
    fix y rb rf
    assume y: "y < H"
      and r: "foldE (\<lambda>x. body x y) [0..<W] (g_bg g ! y, g_fg g ! y) = Inr (rb, rf)"
    show "row_ok W bgIds fgIds (rb, rf)"
    proof (rule foldE_upt_inv [where I = "\<lambda>(k::nat) t. row_ok W bgIds fgIds t", OF r])
      show "row_ok W bgIds fgIds (g_bg g ! y, g_fg g ! y)"
        using ok y by (simp add: grid_ok_def)
    qed (rule cell)
  qed (use ok in \<open>simp_all add: grid_ok_def\<close>)
  then show ?thesis by (simp add: grid_ok_def)
qed

lemma requireBg_D: "requireBg bgIds i = Inr s \<Longrightarrow> i = IdStr s \<and> s \<in> bgIds"
  by (auto simp: requireBg_def split: jsid.splits if_splits)

lemma requireFgOrNull_D:
  "requireFgOrNull fgIds i = Inr v \<Longrightarrow>
     (i = IdNull \<and> v = None) \<or> (\<exists>s. i = IdStr s \<and> v = Some s \<and> s \<in> fgIds)"
  by (auto simp: requireFgOrNull_def split: jsid.splits if_splits)

lemma paint_cell_ok:
  assumes "row_ok W bgIds fgIds r" and "paint_cell c p x y r = Inr r'"
    and "\<forall>s. op_bg p = IdStr s \<longrightarrow> s \<in> bgIds" and "\<forall>s. op_fg p = IdStr s \<longrightarrow> s \<in> fgIds"
  shows "row_ok W bgIds fgIds r'"
proof (cases "predTrue c (op_where p) (int x) (int y) = Inr True")
  case False
  then show ?thesis
    using assms(1,2) by (auto simp: paint_cell_def split: sum.splits if_splits)
next
  case True
  let ?r1 = "((case op_bg p of IdStr s \<Rightarrow> (fst r)[x := s] | _ \<Rightarrow> fst r), snd r)"
  have r1: "row_ok W bgIds fgIds ?r1"
    using assms(1,3) row_ok_bg_update [OF assms(1)]
    by (cases "op_bg p") auto
  have r': "r' = (fst ?r1, (case op_fg p of IdUndefined \<Rightarrow> snd r | IdNull \<Rightarrow> (snd r)[x := None]
                         | IdStr s \<Rightarrow> (snd r)[x := Some s]))"
    using assms(2) True by (simp add: paint_cell_def)
  have upd: "row_ok W bgIds fgIds (fst ?r1, (snd r)[x := v])" if "\<forall>s. v = Some s \<longrightarrow> s \<in> fgIds" for v
    using row_ok_fg_update [OF r1 that, of x] by simp
  show ?thesis
  proof (cases "op_fg p")
    case IdUndefined
    then show ?thesis using r1 r' by simp
  next
    case IdNull
    then show ?thesis using upd [of None] r' by simp
  next
    case (IdStr s)
    then show ?thesis using upd [of "Some s"] r' assms(4) by simp
  qed
qed

lemma paint_ok:
  assumes "paint c bgIds fgIds p g = Inr g'" and "grid_ok (c_width c) (c_height c) bgIds fgIds g"
  shows "grid_ok (c_width c) (c_height c) bgIds fgIds g'"
proof -
  from assms(1) have run: "for_cells (c_width c) (c_height c) (paint_cell c p) g = Inr g'"
    and bg: "\<forall>s. op_bg p = IdStr s \<longrightarrow> s \<in> bgIds"
    and fg: "\<forall>s. op_fg p = IdStr s \<longrightarrow> s \<in> fgIds"
    by (auto simp: paint_def split: sum.splits if_splits dest: requireBg_D requireFgOrNull_D)
  show ?thesis
    by (rule for_cells_ok [OF run assms(2)]) (rule paint_cell_ok [OF _ _ bg fg])
qed

lemma roads_cell_ok:
  assumes "row_ok W bgIds fgIds r" and "roads_cell c p e x y r = Inr r'"
    and "r_bg e \<in> bgIds" and "\<forall>s. r_interId e = Some s \<longrightarrow> s \<in> fgIds"
  shows "row_ok W bgIds fgIds r'"
proof -
  have a: "row_ok W bgIds fgIds ((fst r)[x := r_bg e], snd r)"
    by (rule row_ok_bg_update [OF assms(1,3)])
  have b: "row_ok W bgIds fgIds ((fst r)[x := r_bg e], (snd r)[x := Some s])"
    if "r_interId e = Some s" for s
    using row_ok_fg_update [OF a, of "Some s" x] assms(4) that by simp
  show ?thesis
    using assms(1,2) a b
    by (auto simp: roads_cell_def Let_def split: sum.splits if_splits option.splits)
qed

lemma roads_ok:
  assumes "roads_grid c bgIds fgIds p g = Inr g'" and "grid_ok (c_width c) (c_height c) bgIds fgIds g"
  shows "grid_ok (c_width c) (c_height c) bgIds fgIds g'"
proof -
  from assms(1) obtain bg i where bg: "requireBg bgIds (op_bg p) = Inr bg"
    and i: "roads_inter fgIds (op_fgAtIntersections p) = Inr i"
    and run: "for_cells (c_width c) (c_height c) (roads_cell c p (roads_env_of p bg i)) g = Inr g'"
    by (auto simp: roads_grid_def split: sum.splits)
  have 1: "r_bg (roads_env_of p bg i) \<in> bgIds"
    using requireBg_D [OF bg] by (simp add: roads_env_of_def Let_def)
  have 2: "\<forall>s. r_interId (roads_env_of p bg i) = Some s \<longrightarrow> s \<in> fgIds"
    using i
    by (auto simp: roads_env_of_def Let_def roads_inter_def split: option.splits sum.splits
          dest!: requireFgOrNull_D)
  show ?thesis
    by (rule for_cells_ok [OF run assms(2)]) (rule roads_cell_ok [OF _ _ 1 2])
qed

section \<open>Properties of stamp.scatter\<close>

declare scatter_loop.simps [simp del]

lemma scan_mem: "scan getp t items = Some it \<Longrightarrow> it \<in> set items"
  by (induction items arbitrary: t) (auto simp: Let_def split: if_splits)

lemma item_at_mem: "item_at items i = Some it \<Longrightarrow> it \<in> set items"
  by (auto simp: item_at_def split: if_splits)

lemma pickWeighted_mem: "fst (pickWeighted getp h items) = Some it \<Longrightarrow> it \<in> set items"
  by (auto simp: pickWeighted_def scan_or_last_def Let_def
        split: if_splits option.splits dest: scan_mem item_at_mem)

lemma scatter_attempt_cases:
  assumes "scatter_attempt c env st = Inr st'"
  obtains (skip) h where "st' = st\<lparr>st_rng := h\<rparr>"
  | (placed) h pf x0 y0 where "pf \<in> set (e_prefabs env)"
      and "canPlace (c_width c) (c_height c) (st_occ st) x0 y0 (n_w pf) (n_h pf)"
      and "st' = place c (st\<lparr>st_rng := h\<rparr>) pf x0 y0"
  using assms
  by (auto simp: scatter_attempt_def try_place_def Let_def
        split: option.splits sum.splits if_splits dest!: pickWeighted_mem)

lemma scatter_loop_inv:
  assumes "scatter_loop c env a st = Inr (a', st')"
    and "I a st"
    and "\<And>a t t'. I a t \<Longrightarrow> a < e_maxAttempts env \<Longrightarrow> st_placed t < e_count env \<Longrightarrow>
           scatter_attempt c env t = Inr t' \<Longrightarrow> I (a + 1) t'"
  shows "I a' st'"
  using assms
proof (induction c env a st rule: scatter_loop.induct)
  case (1 c env attempt st)
  show ?case
  proof (cases "attempt < e_maxAttempts env \<and> st_placed st < e_count env")
    case False
    then show ?thesis
      using "1.prems" by (subst (asm) scatter_loop.simps) auto
  next
    case True
    then obtain t where t: "scatter_attempt c env st = Inr t"
      and rest: "scatter_loop c env (attempt + 1) t = Inr (a', st')"
      using "1.prems"(1) by (subst (asm) scatter_loop.simps) (auto split: sum.splits)
    have "I (attempt + 1) t"
      using "1.prems"(3) [OF "1.prems"(2) _ _ t] True by simp
    from "1.IH" [OF True t rest this "1.prems"(3)] show ?thesis by simp
  qed
qed


lemma canPlace_D:
  assumes "canPlace W H occ x0 y0 w h"
  shows "in_grid W H (x0, y0, w, h)"
    and "\<And>x y. (x, y) \<in> footprint (x0, y0, w, h) \<Longrightarrow> \<not> occ ! nat (y * int W + x)"
  using assms
  by (auto simp: canPlace_def in_grid_def footprint_def list_all_iff split: if_splits)

lemma fold_mark_length:
  "length (fold (\<lambda>k occ. occ[idx k := True]) ks occ) = length occ"
  by (induction ks arbitrary: occ) auto

lemma nth_mark: "i < length occ \<Longrightarrow> occ[k := True] ! i \<longleftrightarrow> occ ! i \<or> k = i"
  by (cases "k = i") auto

lemma fold_mark_nth:
  "i < length occ \<Longrightarrow>
   fold (\<lambda>k occ. occ[idx k := True]) ks occ ! i \<longleftrightarrow> occ ! i \<or> (\<exists>k \<in> set ks. idx k = i)"
  by (induction ks arbitrary: occ) (auto simp: nth_mark)

lemma fold2_mark_length:
  "length (fold (\<lambda>y occ. fold (\<lambda>x occ. occ[idx y x := True]) xs occ) ys occ) = length occ"
  by (induction ys arbitrary: occ) (simp_all add: fold_mark_length)

lemma fold2_mark_nth:
  "i < length occ \<Longrightarrow>
   fold (\<lambda>y occ. fold (\<lambda>x occ. occ[idx y x := True]) xs occ) ys occ ! i \<longleftrightarrow>
     occ ! i \<or> (\<exists>y \<in> set ys. \<exists>x \<in> set xs. idx y x = i)"
proof (induction ys arbitrary: occ)
  case Nil
  then show ?case by simp
next
  case (Cons y ys)
  let ?o = "fold (\<lambda>x occ. occ[idx y x := True]) xs occ"
  have "i < length ?o" using Cons.prems by (simp add: fold_mark_length)
  from Cons.IH [OF this] show ?case
    using fold_mark_nth [OF Cons.prems, of "idx y" xs] by auto
qed

lemma markPlace_length: "length (markPlace W occ x0 y0 w h) = length occ"
  by (simp add: markPlace_def fold2_mark_length)

lemma markPlace_nth:
  "i < length occ \<Longrightarrow>
   markPlace W occ x0 y0 w h ! i \<longleftrightarrow>
     occ ! i \<or> (\<exists>(x, y) \<in> footprint (x0, y0, w, h). nat (y * int W + x) = i)"
proof -
  assume i: "i < length occ"
  have "(\<exists>y \<in> set [y0..y0 + h - 1]. \<exists>x \<in> set [x0..x0 + w - 1]. nat (y * int W + x) = i) \<longleftrightarrow>
        (\<exists>(x, y) \<in> footprint (x0, y0, w, h). nat (y * int W + x) = i)"
    by (fastforce simp: footprint_def)
  then show ?thesis
    using fold2_mark_nth [OF i, of "\<lambda>y x. nat (y * int W + x)"] by (simp add: markPlace_def)
qed

lemma cell_index_bound:
  assumes "in_grid W H f" and "(x, y) \<in> footprint f"
  shows "nat (y * int W + x) < W * H"
proof -
  obtain x0 y0 w h where f: "f = (x0, y0, w, h)" by (cases f)
  from assms have x: "0 \<le> x" "x < int W" and y: "0 \<le> y" "y + 1 \<le> int H"
    by (auto simp: f in_grid_def footprint_def)
  have "y * int W + x < (y + 1) * int W"
    using x by (simp add: algebra_simps)
  also have "\<dots> \<le> int H * int W"
    using y x by (intro mult_right_mono) auto
  finally have "y * int W + x < int (W * H)" by (simp add: mult.commute)
  moreover have "0 \<le> y * int W + x" using x y by simp
  ultimately show ?thesis by (simp add: nat_less_iff)
qed


lemma footprint_in_grid:
  "in_grid W H f \<Longrightarrow> (x, y) \<in> footprint f \<Longrightarrow> 0 \<le> x \<and> x < int W \<and> 0 \<le> y \<and> y < int H"
  by (cases f) (auto simp: in_grid_def footprint_def)

lemma cell_index_inj:
  assumes "0 \<le> x" "x < int W" "0 \<le> x'" "x' < int W" "0 \<le> y" "0 \<le> y'"
    and "nat (y * int W + x) = nat (y' * int W + x')"
  shows "x = x' \<and> y = y'"
proof -
  have "0 \<le> y * int W + x" "0 \<le> y' * int W + x'"
    using assms by simp_all
  with assms(7) have eq: "y * int W + x = y' * int W + x'" by linarith
  have "(y * int W + x) div int W = y" "(y' * int W + x') div int W = y'"
    using assms(1-4) by simp_all
  with eq have "y = y'" by simp
  with eq show ?thesis by simp
qed

lemma place_fields:
  "st_occ (place c st pf x0 y0) = markPlace (c_width c) (st_occ st) x0 y0 (n_w pf) (n_h pf)"
  "st_log (place c st pf x0 y0) = st_log st @ [(x0, y0, n_w pf, n_h pf)]"
  "st_placed (place c st pf x0 y0) = st_placed st + 1"
  by (simp_all add: place_def Let_def)

lemma scatter_inv_step:
  assumes inv: "scatter_inv (c_width c) (c_height c) (e_count env) (e_maxAttempts env) a st"
    and a: "a < e_maxAttempts env" and p: "st_placed st < e_count env"
    and att: "scatter_attempt c env st = Inr st'"
  shows "scatter_inv (c_width c) (c_height c) (e_count env) (e_maxAttempts env) (a + 1) st'"
  using att
proof (cases rule: scatter_attempt_cases)
  case (skip h)
  then show ?thesis
    using inv a by (simp add: scatter_inv_def)
next
  case (placed h pf x0 y0)
  let ?W = "c_width c" and ?H = "c_height c"
  let ?f = "(x0, y0, n_w pf, n_h pf)"
  let ?occ = "st_occ st" and ?log = "st_log st"
  have fit: "in_grid ?W ?H ?f"
    and free: "\<And>x y. (x, y) \<in> footprint ?f \<Longrightarrow> \<not> ?occ ! nat (y * int ?W + x)"
    using canPlace_D [OF placed(2)] by blast+
  have len: "length ?occ = ?W * ?H"
    and grid: "\<forall>f \<in> set ?log. in_grid ?W ?H f"
    and occ: "\<And>x y. 0 \<le> x \<Longrightarrow> x < int ?W \<Longrightarrow> 0 \<le> y \<Longrightarrow> y < int ?H \<Longrightarrow>
               ?occ ! nat (y * int ?W + x) \<longleftrightarrow> (\<exists>f \<in> set ?log. (x, y) \<in> footprint f)"
    and dis: "\<forall>i < length ?log. \<forall>j < length ?log. i \<noteq> j \<longrightarrow>
               footprint (?log ! i) \<inter> footprint (?log ! j) = {}"
    using inv by (simp_all add: scatter_inv_def)
  have new: "footprint g \<inter> footprint ?f = {}" if g: "g \<in> set ?log" for g
  proof (rule ccontr)
    assume "footprint g \<inter> footprint ?f \<noteq> {}"
    then obtain x y where xy: "(x, y) \<in> footprint g" "(x, y) \<in> footprint ?f" by auto
    have "0 \<le> x \<and> x < int ?W \<and> 0 \<le> y \<and> y < int ?H"
      using footprint_in_grid [OF fit xy(2)] .
    then have "?occ ! nat (y * int ?W + x)"
      using occ [of x y] g xy(1) by blast
    with free [OF xy(2)] show False by simp
  qed
  have occ': "markPlace ?W ?occ x0 y0 (n_w pf) (n_h pf) ! nat (y * int ?W + x) \<longleftrightarrow>
               (\<exists>f \<in> set (?log @ [?f]). (x, y) \<in> footprint f)"
    if xy: "0 \<le> x" "x < int ?W" "0 \<le> y" "y < int ?H" for x y
  proof -
    have "(x, y) \<in> footprint (0, 0, int ?W, int ?H)" "in_grid ?W ?H (0, 0, int ?W, int ?H)"
      using xy by (simp_all add: footprint_def in_grid_def)
    then have i: "nat (y * int ?W + x) < length ?occ"
      using cell_index_bound len by metis
    have "(\<exists>(x', y') \<in> footprint ?f. nat (y' * int ?W + x') = nat (y * int ?W + x)) \<longleftrightarrow>
          (x, y) \<in> footprint ?f"
    proof
      assume "\<exists>(x', y') \<in> footprint ?f. nat (y' * int ?W + x') = nat (y * int ?W + x)"
      then obtain x' y' where m: "(x', y') \<in> footprint ?f"
        and e: "nat (y' * int ?W + x') = nat (y * int ?W + x)" by auto
      have "0 \<le> x' \<and> x' < int ?W \<and> 0 \<le> y' \<and> y' < int ?H"
        using footprint_in_grid [OF fit m] .
      then have "x' = x \<and> y' = y"
        using cell_index_inj [of x' ?W x y' y] xy e by simp
      with m show "(x, y) \<in> footprint ?f" by simp
    qed auto
    then show ?thesis
      using markPlace_nth [OF i, of ?W x0 y0 "n_w pf" "n_h pf"] occ [OF xy] by auto
  qed
  have dis': "footprint ((?log @ [?f]) ! i) \<inter> footprint ((?log @ [?f]) ! j) = {}"
    if ij: "i < length (?log @ [?f])" "j < length (?log @ [?f])" "i \<noteq> j" for i j
  proof -
    have "(i < length ?log \<and> j < length ?log) \<or> (i < length ?log \<and> j = length ?log) \<or>
          (i = length ?log \<and> j < length ?log)"
      using ij by (auto simp: less_Suc_eq)
    then consider "i < length ?log" "j < length ?log"
      | "i < length ?log" "j = length ?log" | "i = length ?log" "j < length ?log"
      by blast
    then show ?thesis
    proof cases
      case 1
      then show ?thesis using dis ij(3) by (simp add: nth_append)
    next
      case 2
      then show ?thesis using new [of "?log ! i"] by (simp add: nth_append)
    next
      case 3
      then show ?thesis using new [of "?log ! j"] by (auto simp: nth_append)
    qed
  qed
  show ?thesis
    unfolding scatter_inv_def placed(3) place_fields
    using inv a p fit grid occ' dis'
    by (simp add: scatter_inv_def markPlace_length)
qed


lemma safeInt_range: "lo \<le> hi \<Longrightarrow> lo \<le> safeInt n d lo hi \<and> safeInt n d lo hi \<le> hi"
  by (simp add: safeInt_def Let_def)

lemma scatter_inv_init:
  assumes "0 \<le> count" and "0 \<le> maxAttempts"
  shows "scatter_inv W H count maxAttempts 0
           \<lparr>st_rng = h, st_occ = replicate (W * H) False, st_grid = g, st_placed = 0, st_log = []\<rparr>"
proof -
  have "\<not> replicate (W * H) False ! nat (y * int W + x)"
    if "0 \<le> x" "x < int W" "0 \<le> y" "y < int H" for x y
  proof -
    have "(x, y) \<in> footprint (0, 0, int W, int H)" "in_grid W H (0, 0, int W, int H)"
      using that by (simp_all add: footprint_def in_grid_def)
    then have "nat (y * int W + x) < W * H"
      using cell_index_bound by metis
    then show ?thesis by simp
  qed
  then show ?thesis
    using assms by (simp add: scatter_inv_def)
qed

text \<open>
  C6, as amended.  The loop does not compare \<open>placed\<close> with \<open>op.count\<close> but with
  \<open>N = safeInt(op.count, 200, 1, 200000)\<close>, which is at least \<open>1\<close>, and the attempts with
  \<open>M = safeInt(op.maxAttempts, N * 10, 1, 400000)\<close>.  When a \<open>stamp.scatter\<close> operation
  ends, the footprints it placed are pairwise disjoint, their number is the counter
  \<open>placed\<close>, which is at most \<open>N\<close> and at most the number of attempts made, itself at most
  \<open>M\<close>.  Every footprint lies inside the grid, and the occupancy array marks exactly the
  cells of the footprints placed.  So \<open>placed\<close> is at most \<open>op.count\<close> when \<open>op.count\<close> is a
  number that is at least \<open>1\<close>.
\<close>

theorem scatter_non_overlap:
  assumes "scatter_run c bgIds fgIds p g = Inr (ns, attempts, st)"
    and "N = safeInt (op_count p) 200 1 200000"
    and "M = safeInt (op_maxAttempts p) (N * 10) 1 400000"
  shows "(\<forall>i < length (st_log st). \<forall>j < length (st_log st). i \<noteq> j \<longrightarrow>
            footprint (st_log st ! i) \<inter> footprint (st_log st ! j) = {}) \<and>
         st_placed st = int (length (st_log st)) \<and>
         st_placed st \<le> N \<and> st_placed st \<le> attempts \<and> attempts \<le> M \<and>
         (\<forall>f \<in> set (st_log st). in_grid (c_width c) (c_height c) f) \<and>
         (\<forall>x y. 0 \<le> x \<and> x < int (c_width c) \<and> 0 \<le> y \<and> y < int (c_height c) \<longrightarrow>
            (st_occ st ! nat (y * int (c_width c) + x) \<longleftrightarrow>
               (\<exists>f \<in> set (st_log st). (x, y) \<in> footprint f))) \<and>
         1 \<le> N \<and>
         (\<forall>k. op_count p = Some k \<and> 1 \<le> k \<longrightarrow> real_of_int (st_placed st) \<le> k)"
proof -
  let ?env = "\<lparr>e_where = op_where p, e_count = N, e_maxAttempts = M, e_prefabs = ns\<rparr>"
  let ?st0 = "\<lparr>st_rng = xfnv1a (c_seed c @ ''|scatter|'' @ seed_or (op_seed p) ''scatter''),
               st_occ = replicate (c_width c * c_height c) False,
               st_grid = g, st_placed = 0, st_log = []\<rparr>"
  from assms have loop: "scatter_loop c ?env 0 ?st0 = Inr (attempts, st)"
    by (auto simp: scatter_run_def Let_def split: if_splits sum.splits)
  have N1: "1 \<le> N" and M: "0 \<le> M"
    using safeInt_range [of 1 200000 "op_count p" 200]
      safeInt_range [of 1 400000 "op_maxAttempts p" "N * 10"] assms(2,3) by simp_all
  then have N: "0 \<le> N" by simp
  have inv: "scatter_inv (c_width c) (c_height c) (e_count ?env) (e_maxAttempts ?env) attempts st"
  proof (rule scatter_loop_inv [OF loop])
    show "scatter_inv (c_width c) (c_height c) (e_count ?env) (e_maxAttempts ?env) 0 ?st0"
      using scatter_inv_init [OF N M] by simp
  qed (rule scatter_inv_step)
  then have placed: "st_placed st \<le> N"
    by (simp add: scatter_inv_def)
  have "real_of_int (st_placed st) \<le> k" if k: "op_count p = Some k" "1 \<le> k" for k
  proof -
    have "1 \<le> \<lfloor>k\<rfloor>"
      using k(2) by (simp add: le_floor_iff)
    then have "N \<le> \<lfloor>k\<rfloor>"
      using assms(2) k(1) by (simp add: safeInt_def)
    then have "real_of_int N \<le> k"
      by (simp add: le_floor_iff)
    moreover have "real_of_int (st_placed st) \<le> real_of_int N"
      using placed by simp
    ultimately show ?thesis by linarith
  qed
  then show ?thesis
    using inv N1 by (simp add: scatter_inv_def)
qed



lemma validate_prefab_D:
  assumes "validate_prefab bgIds fgIds pf = Inr n"
  shows "(\<forall>s. n_bg n = IdStr s \<longrightarrow> s \<in> bgIds) \<and> (\<forall>s. n_fg n = IdStr s \<longrightarrow> s \<in> fgIds)"
  using assms
  by (auto simp: validate_prefab_def Let_def split: sum.splits if_splits
        dest!: requireBg_D requireFgOrNull_D)

lemma validate_prefabs_D:
  "validate_prefabs bgIds fgIds pfs = Inr ns \<Longrightarrow> n \<in> set ns \<Longrightarrow>
   (\<forall>s. n_bg n = IdStr s \<longrightarrow> s \<in> bgIds) \<and> (\<forall>s. n_fg n = IdStr s \<longrightarrow> s \<in> fgIds)"
proof (induction pfs arbitrary: ns)
  case Nil
  then show ?case by simp
next
  case (Cons pf pfs)
  from Cons.prems(1) obtain m ms where m: "validate_prefab bgIds fgIds pf = Inr m"
    and ms: "validate_prefabs bgIds fgIds pfs = Inr ms" and ns: "ns = m # ms"
    by (auto split: sum.splits)
  show ?case
  proof (cases "n = m")
    case True
    then show ?thesis using validate_prefab_D [OF m] by simp
  next
    case False
    then have "n \<in> set ms" using Cons.prems(2) ns by simp
    from Cons.IH [OF ms this] show ?thesis .
  qed
qed

lemma stamp_row_ok:
  "s \<in> B \<Longrightarrow> length row = W \<and> set row \<subseteq> B \<Longrightarrow>
   length (fold (\<lambda>x row. row[nat x := s]) xs row) = W \<and>
   set (fold (\<lambda>x row. row[nat x := s]) xs row) \<subseteq> B"
proof (induction xs arbitrary: row)
  case Nil
  then show ?case by simp
next
  case (Cons x xs)
  have "length (row[nat x := s]) = W \<and> set (row[nat x := s]) \<subseteq> B"
    using Cons.prems set_update_subset_insert [of row "nat x" s] by auto
  from Cons.IH [OF Cons.prems(1) this] show ?case by simp
qed

lemma stamp_rows_ok:
  assumes "s \<in> B"
  shows "length bg = H \<and> (\<forall>y < H. length (bg ! y) = W \<and> set (bg ! y) \<subseteq> B) \<Longrightarrow>
         length (fold (\<lambda>y bg. bg[nat y := fold (\<lambda>x row. row[nat x := s]) xs (bg ! nat y)]) ys bg) = H \<and>
         (\<forall>y < H.
            length (fold (\<lambda>y bg. bg[nat y := fold (\<lambda>x row. row[nat x := s]) xs (bg ! nat y)]) ys bg ! y) = W \<and>
            set (fold (\<lambda>y bg. bg[nat y := fold (\<lambda>x row. row[nat x := s]) xs (bg ! nat y)]) ys bg ! y) \<subseteq> B)"
proof (induction ys arbitrary: bg)
  case Nil
  then show ?case by simp
next
  case (Cons y ys)
  let ?row = "fold (\<lambda>x row. row[nat x := s]) xs (bg ! nat y)"
  let ?bg = "bg[nat y := ?row]"
  have "length ?bg = H \<and> (\<forall>k < H. length (?bg ! k) = W \<and> set (?bg ! k) \<subseteq> B)"
  proof (cases "nat y < H")
    case True
    then have "length ?row = W \<and> set ?row \<subseteq> B"
      using stamp_row_ok [OF assms, of "bg ! nat y" W xs] Cons.prems by simp
    then show ?thesis
      using Cons.prems True by (auto simp: nth_list_update)
  next
    case False
    then have "?bg = bg" using Cons.prems by (simp add: list_update_beyond)
    then show ?thesis using Cons.prems by simp
  qed
  from Cons.IH [OF this] show ?case by simp
qed

lemma stamp_bg_ok:
  assumes "s \<in> B" and "length bg = H" and "\<forall>y < H. length (bg ! y) = W \<and> set (bg ! y) \<subseteq> B"
  shows "length (stamp_bg bg x0 y0 w h s) = H \<and>
         (\<forall>y < H. length (stamp_bg bg x0 y0 w h s ! y) = W \<and> set (stamp_bg bg x0 y0 w h s ! y) \<subseteq> B)"
  unfolding stamp_bg_def
  using stamp_rows_ok [OF assms(1), of bg H W] assms(2,3) by simp

lemma place_ok:
  assumes ok: "grid_ok W H bgIds fgIds (st_grid st)"
    and bg: "\<forall>s. n_bg pf = IdStr s \<longrightarrow> s \<in> bgIds" and fg: "\<forall>s. n_fg pf = IdStr s \<longrightarrow> s \<in> fgIds"
  shows "grid_ok W H bgIds fgIds (st_grid (place c st pf x0 y0))"
proof -
  let ?g = "st_grid st"
  let ?bg = "(case n_bg pf of IdStr s \<Rightarrow> stamp_bg (g_bg ?g) x0 y0 (n_w pf) (n_h pf) s | _ \<Rightarrow> g_bg ?g)"
  let ?cx = "nat (x0 + n_w pf div 2)" and ?cy = "nat (y0 + n_h pf div 2)"
  let ?fg = "(case n_fg pf of
                IdStr s \<Rightarrow> (g_fg ?g)[?cy := (g_fg ?g ! ?cy)[?cx := Some s]]
              | _ \<Rightarrow> g_fg ?g)"
  have g: "st_grid (place c st pf x0 y0) = \<lparr>g_bg = ?bg, g_fg = ?fg\<rparr>"
    by (simp add: place_def Let_def)
  have old_bg: "length (g_bg ?g) = H" "\<forall>y < H. length (g_bg ?g ! y) = W \<and> set (g_bg ?g ! y) \<subseteq> bgIds"
    and old_fg: "length (g_fg ?g) = H"
      "\<forall>y < H. length (g_fg ?g ! y) = W \<and> (\<forall>s. Some s \<in> set (g_fg ?g ! y) \<longrightarrow> s \<in> fgIds)"
    using ok by (simp_all add: grid_ok_def row_ok_def)
  have 1: "length ?bg = H \<and> (\<forall>y < H. length (?bg ! y) = W \<and> set (?bg ! y) \<subseteq> bgIds)"
  proof (cases "n_bg pf")
    case (IdStr s)
    then show ?thesis
      using stamp_bg_ok [OF _ old_bg, of s] bg by simp
  qed (use old_bg in simp_all)
  have 2: "length ?fg = H \<and>
           (\<forall>y < H. length (?fg ! y) = W \<and> (\<forall>s. Some s \<in> set (?fg ! y) \<longrightarrow> s \<in> fgIds))"
  proof (cases "n_fg pf")
    case (IdStr s)
    have "length ((g_fg ?g)[?cy := (g_fg ?g ! ?cy)[?cx := Some s]] ! y) = W \<and>
          (\<forall>t. Some t \<in> set ((g_fg ?g)[?cy := (g_fg ?g ! ?cy)[?cx := Some s]] ! y) \<longrightarrow> t \<in> fgIds)"
      if y: "y < H" for y
    proof (cases "?cy = y")
      case True
      have "set ((g_fg ?g ! y)[?cx := Some s]) \<subseteq> insert (Some s) (set (g_fg ?g ! y))"
        by (rule set_update_subset_insert)
      then show ?thesis
        using True y old_fg fg IdStr by (auto simp: nth_list_update)
    next
      case False
      then show ?thesis using y old_fg by simp
    qed
    then show ?thesis
      using IdStr old_fg by simp
  qed (use old_fg in simp_all)
  show ?thesis
    unfolding g using 1 2 by (simp add: grid_ok_def row_ok_def)
qed

lemma scatter_ok:
  assumes "stamp_scatter c bgIds fgIds p g = Inr (g', p')"
    and "grid_ok (c_width c) (c_height c) bgIds fgIds g"
  shows "grid_ok (c_width c) (c_height c) bgIds fgIds g'"
proof -
  from assms(1) obtain ns a st where run: "scatter_run c bgIds fgIds p g = Inr (ns, a, st)"
    and g': "g' = st_grid st"
    by (auto simp: stamp_scatter_def split: sum.splits)
  define env where "env = \<lparr>e_where = op_where p, e_count = safeInt (op_count p) 200 1 200000,
               e_maxAttempts = safeInt (op_maxAttempts p)
                                 (safeInt (op_count p) 200 1 200000 * 10) 1 400000,
               e_prefabs = ns\<rparr>"
  define h where "h = xfnv1a (c_seed c @ ''|scatter|'' @ seed_or (op_seed p) ''scatter'')"
  from run have ns: "validate_prefabs bgIds fgIds (op_prefabs p) = Inr ns"
    and loop: "scatter_loop c env 0
                 \<lparr>st_rng = h, st_occ = replicate (c_width c * c_height c) False,
                  st_grid = g, st_placed = 0, st_log = []\<rparr> = Inr (a, st)"
    by (auto simp: scatter_run_def Let_def env_def h_def split: sum.splits if_splits)
  have env: "e_prefabs env = ns" by (simp add: env_def)
  have "(\<lambda>(a::int) t. grid_ok (c_width c) (c_height c) bgIds fgIds (st_grid t)) a st"
  proof (rule scatter_loop_inv [OF loop])
    show "grid_ok (c_width c) (c_height c) bgIds fgIds
            (st_grid \<lparr>st_rng = h, st_occ = replicate (c_width c * c_height c) False,
                  st_grid = g, st_placed = 0, st_log = []\<rparr>)"
      using assms(2) by simp
  next
    fix a t t'
    assume ok: "grid_ok (c_width c) (c_height c) bgIds fgIds (st_grid t)"
      and att: "scatter_attempt c env t = Inr t'"
    from att show "grid_ok (c_width c) (c_height c) bgIds fgIds (st_grid t')"
    proof (cases rule: scatter_attempt_cases)
      case (skip h)
      then show ?thesis using ok by simp
    next
      case (placed h pf x0 y0)
      have "grid_ok (c_width c) (c_height c) bgIds fgIds (st_grid (t\<lparr>st_rng := h\<rparr>))"
        using ok by simp
      then show ?thesis
        unfolding placed(3)
        using validate_prefabs_D [OF ns] placed(1) env by (intro place_ok) auto
    qed
  qed
  then show ?thesis by (simp add: g')
qed

lemma exec_op_ok:
  assumes "exec_op c bgIds fgIds i en g = Inr (g', en')"
    and "grid_ok (c_width c) (c_height c) bgIds fgIds g"
  shows "grid_ok (c_width c) (c_height c) bgIds fgIds g'"
proof (cases en)
  case (EObj p)
  then show ?thesis
    using assms paint_ok [of c bgIds fgIds p g g'] roads_ok [of c bgIds fgIds p g g']
      scatter_ok [of c bgIds fgIds p g g']
    by (auto simp: exec_op_def Let_def split: if_splits sum.splits)
qed (use assms in \<open>simp_all add: exec_op_def\<close>)

lemma exec_ops_ok:
  "exec_ops c bgIds fgIds i ens g = Inr (g', ens') \<Longrightarrow>
   grid_ok (c_width c) (c_height c) bgIds fgIds g \<Longrightarrow>
   grid_ok (c_width c) (c_height c) bgIds fgIds g'"
proof (induction ens arbitrary: i g ens')
  case Nil
  then show ?case by simp
next
  case (Cons en ens)
  from Cons.prems(1) obtain g1 en1 ens1 where 1: "exec_op c bgIds fgIds i en g = Inr (g1, en1)"
    and 2: "exec_ops c bgIds fgIds (Suc i) ens g1 = Inr (g', ens1)"
    by (auto split: sum.splits)
  from Cons.IH [OF 2 exec_op_ok [OF 1 Cons.prems(2)]] show ?case .
qed

section \<open>Id integrity\<close>

lemma uniqIds_D: "uniqIds kind ts s = Inr s' \<Longrightarrow> s' = s \<union> t_id ` set ts"
  by (induction ts arbitrary: s) (auto split: if_splits)

lemma validateTiles_D:
  assumes "validateTiles ts = Inr ids"
  shows "fst ids = t_id ` set (background ts)" and "snd ids = t_id ` set (foreground ts)"
    and "background ts \<noteq> []"
  using assms
  by (auto simp: validateTiles_def split: if_splits option.splits sum.splits dest!: uniqIds_D)

lemma sanitize_ids:
  "t_id ` set (foreground (sanitize extra ts)) = t_id ` set (foreground ts)"
  "background (sanitize extra ts) = background ts"
proof -
  have "t_id (sanitize_symbol extra t) = t_id t" for t
    by (simp add: sanitize_symbol_def split: list.splits)
  then show "t_id ` set (foreground (sanitize extra ts)) = t_id ` set (foreground ts)"
    by (simp add: sanitize_def image_image)
  show "background (sanitize extra ts) = background ts"
    by (simp add: sanitize_def)
qed

text \<open>
  C2.  In every output, the background id of every cell is the id of a background tile
  of the output, and its foreground id is \<open>null\<close> or the id of a foreground tile of the
  output.  The grid is well formed when it is allocated (\<open>init_grid_ok\<close>) and each
  operation keeps it so (\<open>paint_ok\<close>, \<open>roads_ok\<close>, \<open>scatter_ok\<close>).
\<close>

theorem id_integrity:
  assumes "generate extra sp reference = Inr (out, sp')"
  shows "\<forall>row \<in> set (a_cells (o_area out)). \<forall>cell \<in> set row.
           fst cell \<in> t_id ` set (background (o_tiles out)) \<and>
           (snd cell = None \<or> (\<exists>s. snd cell = Some s \<and> s \<in> t_id ` set (foreground (o_tiles out))))"
proof -
  from assms obtain ids g ens where v: "validateTiles (s_tiles sp) = Inr ids"
    and run: "exec_ops (make_ctx reference (s_layers sp)) (fst ids) (snd ids) 0 (s_ops sp)
                (init_grid width height (t_id (background (s_tiles sp) ! 0))) = Inr (g, ens)"
    and out: "out = make_output (sanitize extra (s_tiles sp)) g"
    by (auto simp: generate_def split: sum.splits if_splits)
  note ids = validateTiles_D [OF v]
  have "t_id (background (s_tiles sp) ! 0) \<in> fst ids"
    using ids(1,3) by (cases "background (s_tiles sp)") auto
  then have "grid_ok width height (fst ids) (snd ids)
               (init_grid width height (t_id (background (s_tiles sp) ! 0)))"
    by (rule init_grid_ok)
  with exec_ops_ok [OF run] have ok: "grid_ok width height (fst ids) (snd ids) g"
    by (simp add: make_ctx_def)
  show ?thesis
  proof (intro ballI)
    fix row cell
    assume "row \<in> set (a_cells (o_area out))" and "cell \<in> set row"
    then obtain x y where y: "y < height" and x: "x < width"
      and cell: "cell = (g_bg g ! y ! x, g_fg g ! y ! x)"
      by (auto simp: out make_output_def compose_cells_def)
    from ok y have r: "row_ok width (fst ids) (snd ids) (g_bg g ! y, g_fg g ! y)"
      by (simp add: grid_ok_def)
    then have "g_bg g ! y ! x \<in> fst ids"
      using x by (auto simp: row_ok_def)
    moreover have "g_fg g ! y ! x = None \<or> (\<exists>s. g_fg g ! y ! x = Some s \<and> s \<in> snd ids)"
    proof (cases "g_fg g ! y ! x")
      case (Some s)
      have "g_fg g ! y ! x \<in> set (g_fg g ! y)"
        using r x by (simp add: row_ok_def)
      then show ?thesis using r Some by (auto simp: row_ok_def)
    qed simp
    ultimately show "fst cell \<in> t_id ` set (background (o_tiles out)) \<and>
           (snd cell = None \<or> (\<exists>s. snd cell = Some s \<and> s \<in> t_id ` set (foreground (o_tiles out))))"
      using ids(1,2) by (simp add: cell out make_output_def sanitize_ids)
  qed
qed

theorem id_integrity_witness:
  "generate [] (scenario \<lparr>w_width = 4, w_height = 4, w_metersPerCell = 1\<rparr>) ''seed'' =
     Inr (scenario_output, scenario \<lparr>w_width = 200, w_height = 200, w_metersPerCell = 1\<rparr>) \<and>
   (''bg0'', None) \<in> set (a_cells (o_area scenario_output) ! 7) \<and>
   ''bg0'' \<in> t_id ` set (background (o_tiles scenario_output))"
proof -
  have run: "generate [] (scenario \<lparr>w_width = 4, w_height = 4, w_metersPerCell = 1\<rparr>) ''seed'' =
     Inr (scenario_output, scenario \<lparr>w_width = 200, w_height = 200, w_metersPerCell = 1\<rparr>)"
    by (rule scenario_run)
  have row: "a_cells (o_area scenario_output) ! 7 \<in> set (a_cells (o_area scenario_output))"
    by (simp add: scenario_output_def)
  have cell: "(''bg0'', None) \<in> set (a_cells (o_area scenario_output) ! 7)"
    by (simp add: scenario_output_def)
  from id_integrity [OF run] row cell
  have "fst (''bg0'', None :: string option) \<in> t_id ` set (background (o_tiles scenario_output))"
    by blast
  then show ?thesis using run cell by simp
qed

section \<open>A scatter run on a small grid\<close>

lemma rng_val_range: "0 \<le> rng_val h \<and> rng_val h < 1"
proof -
  have "unat h < 2 ^ LENGTH(32)"
    by (rule unsigned_less)
  then have "unat h < 4294967296" by simp
  then have "real (unat h) < real 4294967296"
    by (simp only: of_nat_less_iff)
  then show ?thesis
    by (simp add: rng_val_def del: of_nat_unat)
qed

lemma floor_rng_val: "\<lfloor>rng_val h\<rfloor> = 0"
  using rng_val_range [of h] by (simp add: floor_eq_iff)

lemma tiny_scatter:
  "\<exists>ns st. scatter_run tiny_ctx {''bg0''} {} scatter_op tiny_grid = Inr (ns, 2, st) \<and>
     st_log st = [(0, 0, 2, 2)] \<and> st_placed st = 1"
proof -
  let ?n = "\<lparr>n_w = 2, n_h = 2, n_bg = IdStr ''bg0'', n_fg = IdNull, n_p = 1\<rparr>"
  have v: "validate_prefabs {''bg0''} {} (op_prefabs scatter_op) = Inr [?n]"
    by (simp add: scatter_op_def empty_op_def validate_prefab_def safeInt_def requireBg_def
          clamp01_def)
  have pick: "pickWeighted (\<lambda>pf. Some (n_p pf)) h [?n] = (Some ?n, rng_step h)" for h
    using rng_val_range [of "rng_step h"]
    by (simp add: pickWeighted_def weight_sum_def weight_def scan_or_last_def Let_def)
  have len: "length (op_prefabs scatter_op) = 1"
    by (simp add: scatter_op_def empty_op_def)
  have f: "op_count scatter_op = Some 3" "op_maxAttempts scatter_op = Some 2"
    "op_where scatter_op = None" "op_seed scatter_op = None"
    by (simp_all add: scatter_op_def empty_op_def)
  have c: "c_width tiny_ctx = 2" "c_height tiny_ctx = 2"
    by (simp_all add: tiny_ctx_def)
  show ?thesis
    apply (simp add: scatter_run_def Let_def v len f c safeInt_def)
    apply (subst scatter_loop.simps)
    apply (simp add: scatter_attempt_def pick Let_def floor_rng_val try_place_def predTrue_def canPlace_def c upto_rec1)
    apply (subst scatter_loop.simps)
    apply (simp add: scatter_attempt_def pick Let_def floor_rng_val try_place_def predTrue_def canPlace_def c place_def markPlace_def upto_rec1)
    apply (subst scatter_loop.simps)
    apply (simp add: place_def Let_def)
    done
qed


lemma scatter_seed: "xfnv1a ''seed|scatter|scatter'' = 1199488372"
  by (simp add: xfnv1a_def)

lemma scatter_draws:
  "rng_step 1199488372 = 226568649" "rng_step 226568649 = 84075910"
  "rng_step 84075910 = 198498574" "rng_step 198498574 = 2558787511"
  "rng_step 2558787511 = 771618725" "rng_step 771618725 = 661446841"
  "rng_step 661446841 = 360715797" "rng_step 360715797 = 1551354176"
  "rng_step 1551354176 = 3665236876"
  by (simp_all add: rng_step_def Let_def)

text \<open>
  A run on a grid of four by two cells with one prefab of two by one cells, a count of
  \<open>2\<close> and a budget of \<open>5\<close> attempts: the first attempt places at \<open>(0, 0)\<close>, the second draws
  \<open>(0, 0)\<close> again and is refused, the third places at \<open>(1, 1)\<close> and the loop ends.
\<close>

lemma pair_scatter:
  "\<exists>ns st. scatter_run wide_ctx {''bg0'', ''bg1''} {} scatter_pair wide_grid = Inr (ns, 3, st) \<and>
     st_log st = [(0, 0, 2, 1), (1, 1, 2, 1)] \<and> st_placed st = 2"
proof -
  let ?n = "\<lparr>n_w = 2, n_h = 1, n_bg = IdStr ''bg1'', n_fg = IdNull, n_p = 1\<rparr>"
  have v: "validate_prefabs {''bg0'', ''bg1''} {} (op_prefabs scatter_pair) = Inr [?n]"
    by (simp add: scatter_pair_def empty_op_def validate_prefab_def safeInt_def requireBg_def
          clamp01_def)
  have pick: "pickWeighted (\<lambda>pf. Some (n_p pf)) h [?n] = (Some ?n, rng_step h)" for h
    using rng_val_range [of "rng_step h"]
    by (simp add: pickWeighted_def weight_sum_def weight_def scan_or_last_def Let_def)
  have len: "length (op_prefabs scatter_pair) = 1"
    by (simp add: scatter_pair_def empty_op_def)
  have f: "op_count scatter_pair = Some 2" "op_maxAttempts scatter_pair = Some 5"
    "op_where scatter_pair = None" "op_seed scatter_pair = None"
    by (simp_all add: scatter_pair_def empty_op_def)
  have c: "c_width wide_ctx = 4" "c_height wide_ctx = 2" "c_seed wide_ctx = ''seed''"
    by (simp_all add: wide_ctx_def)
  show ?thesis
    apply (simp add: scatter_run_def Let_def v len f c safeInt_def seed_or_def scatter_seed)
    apply (subst scatter_loop.simps)
    apply (simp add: scatter_attempt_def pick Let_def try_place_def predTrue_def canPlace_def c
             upto_rec1 scatter_draws rng_val_def place_def markPlace_def)
    apply (subst scatter_loop.simps)
    apply (simp add: scatter_attempt_def pick Let_def try_place_def predTrue_def canPlace_def c
             upto_rec1 scatter_draws rng_val_def place_def markPlace_def)
    apply (subst scatter_loop.simps)
    apply (simp add: scatter_attempt_def pick Let_def try_place_def predTrue_def canPlace_def c
             upto_rec1 scatter_draws rng_val_def place_def markPlace_def)
    apply (subst scatter_loop.simps)
    apply (simp add: place_def Let_def)
    done
qed

text \<open>
  The claim as it stands, with the count of the operation as the bound, fails on a count
  of \<open>0\<close>: the loop runs with the count \<open>1\<close> and places one prefab.
\<close>

theorem scatter_count_counterexample:
  "op_count scatter_zero = Some 0 \<and>
   (\<exists>ns st. scatter_run tiny_ctx {''bg0''} {} scatter_zero tiny_grid = Inr (ns, 1, st) \<and>
      st_log st = [(0, 0, 2, 2)] \<and> st_placed st = 1 \<and> \<not> real_of_int (st_placed st) \<le> 0)"
proof -
  let ?n = "\<lparr>n_w = 2, n_h = 2, n_bg = IdStr ''bg0'', n_fg = IdNull, n_p = 1\<rparr>"
  have v: "validate_prefabs {''bg0''} {} (op_prefabs scatter_zero) = Inr [?n]"
    by (simp add: scatter_zero_def scatter_op_def empty_op_def validate_prefab_def safeInt_def
          requireBg_def clamp01_def)
  have pick: "pickWeighted (\<lambda>pf. Some (n_p pf)) h [?n] = (Some ?n, rng_step h)" for h
    using rng_val_range [of "rng_step h"]
    by (simp add: pickWeighted_def weight_sum_def weight_def scan_or_last_def Let_def)
  have len: "length (op_prefabs scatter_zero) = 1"
    by (simp add: scatter_zero_def scatter_op_def empty_op_def)
  have f: "op_count scatter_zero = Some 0" "op_maxAttempts scatter_zero = Some 2"
    "op_where scatter_zero = None" "op_seed scatter_zero = None"
    by (simp_all add: scatter_zero_def scatter_op_def empty_op_def)
  have c: "c_width tiny_ctx = 2" "c_height tiny_ctx = 2"
    by (simp_all add: tiny_ctx_def)
  have "\<exists>ns st. scatter_run tiny_ctx {''bg0''} {} scatter_zero tiny_grid = Inr (ns, 1, st) \<and>
      st_log st = [(0, 0, 2, 2)] \<and> st_placed st = 1"
    apply (simp add: scatter_run_def Let_def v len f c safeInt_def)
    apply (subst scatter_loop.simps)
    apply (simp add: scatter_attempt_def pick Let_def floor_rng_val try_place_def predTrue_def
             canPlace_def c upto_rec1)
    apply (subst scatter_loop.simps)
    apply (simp add: place_def Let_def)
    done
  then show ?thesis
    using f(1) by auto
qed

theorem scatter_non_overlap_witness:
  "\<exists>ns st. scatter_run wide_ctx {''bg0'', ''bg1''} {} scatter_pair wide_grid = Inr (ns, 3, st) \<and>
     2 = safeInt (op_count scatter_pair) 200 1 200000 \<and>
     5 = safeInt (op_maxAttempts scatter_pair) (2 * 10) 1 400000 \<and>
     op_count scatter_pair = Some 2 \<and>
     st_log st = [(0, 0, 2, 1), (1, 1, 2, 1)] \<and>
     footprint (st_log st ! 0) \<inter> footprint (st_log st ! 1) = {} \<and>
     st_placed st = 2 \<and> st_placed st \<le> 2 \<and> real_of_int (st_placed st) \<le> 2 \<and>
     st_placed st \<le> 3 \<and> (3::int) \<le> 5 \<and>
     in_grid (c_width wide_ctx) (c_height wide_ctx) (0, 0, 2, 1) \<and>
     in_grid (c_width wide_ctx) (c_height wide_ctx) (1, 1, 2, 1) \<and>
     st_occ st ! 6 \<and> \<not> st_occ st ! 4"
proof -
  obtain ns st where run: "scatter_run wide_ctx {''bg0'', ''bg1''} {} scatter_pair wide_grid = Inr (ns, 3, st)"
    and log: "st_log st = [(0, 0, 2, 1), (1, 1, 2, 1)]" and placed: "st_placed st = 2"
    using pair_scatter by blast
  have N: "2 = safeInt (op_count scatter_pair) 200 1 200000"
    and M: "5 = safeInt (op_maxAttempts scatter_pair) (2 * 10) 1 400000"
    and k: "op_count scatter_pair = Some 2"
    by (simp_all add: scatter_pair_def empty_op_def safeInt_def)
  note res = scatter_non_overlap [OF run N M]
  have "\<forall>i < length (st_log st). \<forall>j < length (st_log st). i \<noteq> j \<longrightarrow>
            footprint (st_log st ! i) \<inter> footprint (st_log st ! j) = {}"
    using res by blast
  from this [rule_format, of 0 1]
  have dis: "footprint (st_log st ! 0) \<inter> footprint (st_log st ! 1) = {}"
    by (simp add: log)
  have grid: "in_grid (c_width wide_ctx) (c_height wide_ctx) (0, 0, 2, 1)"
    "in_grid (c_width wide_ctx) (c_height wide_ctx) (1, 1, 2, 1)"
    using res log by simp_all
  have occ: "st_occ st ! nat (y * int (c_width wide_ctx) + x) \<longleftrightarrow>
               (\<exists>f \<in> set (st_log st). (x, y) \<in> footprint f)"
    if "0 \<le> x \<and> x < int (c_width wide_ctx) \<and> 0 \<le> y \<and> y < int (c_height wide_ctx)" for x y
    using res that by blast
  have "st_occ st ! 6" "\<not> st_occ st ! 4"
    using occ [of 2 1] occ [of 0 1] by (simp_all add: wide_ctx_def log footprint_def)
  moreover have "real_of_int (st_placed st) \<le> 2"
    using res k by simp
  ultimately show ?thesis
    using run N M k log placed dis grid by auto
qed

section \<open>A second run on the same spec object\<close>

lemma fallbacks_allowed: "k < length fallbacks \<Longrightarrow> allowed extra (fallbacks ! k)"
proof -
  have "list_all (allowed extra) fallbacks"
    by (simp add: fallbacks_def allowed_def)
  then show "k < length fallbacks \<Longrightarrow> allowed extra (fallbacks ! k)"
    by (simp add: list_all_length)
qed

lemma sanitize_symbol_idem:
  "sanitize_symbol extra (sanitize_symbol extra t) = sanitize_symbol extra t"
proof (cases "t_symbol t")
  case Nil
  then show ?thesis by (simp add: sanitize_symbol_def)
next
  case (Cons ch r)
  have "(length (t_id t) + of_char ch) mod length fallbacks < length fallbacks"
    by (simp add: fallbacks_def)
  then have "allowed extra (fallbacks ! ((length (t_id t) + of_char ch) mod length fallbacks))"
    by (rule fallbacks_allowed)
  then show ?thesis
    using Cons by (simp add: sanitize_symbol_def)
qed

lemma sanitize_idem: "sanitize extra (sanitize extra ts) = sanitize extra ts"
  by (simp add: sanitize_def sanitize_symbol_idem)

lemma uniqIds_map:
  "(\<And>t. t_id (f t) = t_id t) \<Longrightarrow> uniqIds kind (map f ts) s = uniqIds kind ts s"
  by (induction ts arbitrary: s) auto

lemma check_fg_sanitize: "check_fg t = None \<Longrightarrow> check_fg (sanitize_symbol extra t) = None"
  by (auto simp: check_fg_def sanitize_symbol_def split: if_splits list.splits)

lemma first_failure_sanitize:
  "first_failure check_fg ts = None \<Longrightarrow>
   first_failure check_fg (map (sanitize_symbol extra) ts) = None"
  by (induction ts) (auto simp: check_fg_sanitize split: option.splits)

lemma validateTiles_sanitize:
  assumes "validateTiles ts = Inr ids"
  shows "validateTiles (sanitize extra ts) = Inr ids"
proof -
  have id: "t_id (sanitize_symbol extra t) = t_id t" for t
    by (simp add: sanitize_symbol_def split: list.splits)
  show ?thesis
    using assms
    by (auto simp: validateTiles_def sanitize_def uniqIds_map [of "sanitize_symbol extra", OF id]
          first_failure_sanitize split: if_splits option.splits sum.splits)
qed


lemma safeInt_again:
  "lo \<le> hi \<Longrightarrow> safeInt (Some (real_of_int (safeInt n d lo hi))) d' lo hi = safeInt n d lo hi"
  by (simp add: safeInt_def Let_def)

lemma clamp01_again: "clamp01 (or_else (Number (Some (clamp01 r))) 0) = clamp01 r"
  by (simp add: clamp01_def)

lemma validate_prefab_store:
  assumes "validate_prefab bgIds fgIds pf = Inr n"
  shows "validate_prefab bgIds fgIds (store_prefab n) = Inr n"
proof -
  let ?B = "if pf_bg pf \<noteq> IdUndefined \<and> pf_bg pf \<noteq> IdNull
            then requireBg bgIds (pf_bg pf) else Inr []"
  let ?F = "if pf_fg pf \<noteq> IdUndefined \<and> pf_fg pf \<noteq> IdNull
            then requireFgOrNull fgIds (pf_fg pf) else Inr None"
  from assms obtain b f where B: "?B = Inr b" and F: "?F = Inr f"
    and n: "n = \<lparr>n_w = safeInt (pf_w pf) 1 1 200, n_h = safeInt (pf_h pf) 1 1 200,
                 n_bg = pf_bg pf, n_fg = pf_fg pf,
                 n_p = clamp01 (or_else (Number (Some (case pf_p pf of None \<Rightarrow> 1
                                                       | Some r \<Rightarrow> r))) 0)\<rparr>"
    by (auto simp: validate_prefab_def Let_def split: sum.splits)
  have p: "or_else (Number (Some (case pf_p pf of None \<Rightarrow> 1 | Some r \<Rightarrow> r))) 0 =
           (case pf_p pf of None \<Rightarrow> 1 | Some r \<Rightarrow> r)"
    by simp
  show ?thesis
    unfolding validate_prefab_def Let_def store_prefab_def n
    by (simp only: prefab.simps nprefab.simps B F sum.case safeInt_again clamp01_again p
          option.case)
qed

lemma validate_prefabs_store:
  "validate_prefabs bgIds fgIds pfs = Inr ns \<Longrightarrow>
   validate_prefabs bgIds fgIds (map store_prefab ns) = Inr ns \<and> length ns = length pfs"
proof (induction pfs arbitrary: ns)
  case Nil
  then show ?case by simp
next
  case (Cons pf pfs)
  from Cons.prems obtain m ms where m: "validate_prefab bgIds fgIds pf = Inr m"
    and ms: "validate_prefabs bgIds fgIds pfs = Inr ms" and ns: "ns = m # ms"
    by (auto split: sum.splits)
  show ?case
    using validate_prefab_store [OF m] Cons.IH [OF ms] by (simp add: ns)
qed

lemma scatter_run_again:
  assumes "scatter_run c bgIds fgIds p g = Inr (ns, a, st)"
  shows "scatter_run c bgIds fgIds (p\<lparr>op_prefabs := map store_prefab ns\<rparr>) g = Inr (ns, a, st)"
proof -
  from assms have ns: "validate_prefabs bgIds fgIds (op_prefabs p) = Inr ns"
    by (auto simp: scatter_run_def Let_def split: sum.splits if_splits)
  note again = validate_prefabs_store [OF ns]
  show ?thesis
    using assms again by (auto simp: scatter_run_def Let_def split: sum.splits if_splits)
qed

lemma stamp_scatter_again:
  assumes "stamp_scatter c bgIds fgIds p g = Inr (g', p')"
  shows "stamp_scatter c bgIds fgIds p' g = Inr (g', p')"
proof -
  from assms obtain ns a st where run: "scatter_run c bgIds fgIds p g = Inr (ns, a, st)"
    and g': "g' = st_grid st" and p': "p' = p\<lparr>op_prefabs := map store_prefab ns\<rparr>"
    by (auto simp: stamp_scatter_def split: sum.splits)
  show ?thesis
    using scatter_run_again [OF run] by (simp add: stamp_scatter_def g' p')
qed

lemma exec_op_again:
  assumes "exec_op c bgIds fgIds i en g = Inr (g', en')"
  shows "exec_op c bgIds fgIds i en' g = Inr (g', en')"
proof (cases en)
  case (EObj p)
  show ?thesis
  proof (cases "type_string (op_type p) = ''stamp.scatter''")
    case True
    with assms EObj obtain p' where s: "stamp_scatter c bgIds fgIds p g = Inr (g', p')"
      and en': "en' = EObj p'"
      by (auto simp: exec_op_def split: sum.splits)
    have "op_type p' = op_type p"
      using s by (auto simp: stamp_scatter_def split: sum.splits)
    then show ?thesis
      using stamp_scatter_again [OF s] True by (simp add: exec_op_def en')
  next
    case False
    then have "en' = en"
      using assms EObj by (auto simp: exec_op_def Let_def split: if_splits sum.splits)
    then show ?thesis using assms by simp
  qed
qed (use assms in \<open>auto simp: exec_op_def\<close>)

lemma exec_ops_again:
  "exec_ops c bgIds fgIds i ens g = Inr (g', ens') \<Longrightarrow>
   exec_ops c bgIds fgIds i ens' g = Inr (g', ens') \<and> length ens' = length ens"
proof (induction ens arbitrary: i g ens')
  case Nil
  then show ?case by simp
next
  case (Cons en ens)
  from Cons.prems obtain g1 en1 ens1 where 1: "exec_op c bgIds fgIds i en g = Inr (g1, en1)"
    and 2: "exec_ops c bgIds fgIds (Suc i) ens g1 = Inr (g', ens1)" and e: "ens' = en1 # ens1"
    by (auto split: sum.splits)
  show ?case
    using exec_op_again [OF 1] Cons.IH [OF 2] by (simp add: e)
qed

text \<open>
  C1.  The embedding makes \<open>generate\<close> a function of the spec document, the reference
  string and the whitelist: a run has no other input (the sampler's caches, the set of
  layers in progress, the occupancy array and every generator are created inside the
  run, the generators from \<open>xfnv1a\<close> hashes of the reference), so two runs on equal
  arguments return the same output, cell for cell and placement for placement.  What a
  run leaves behind is the spec object, whose \<open>world\<close>, foreground symbols and prefabs
  it has overwritten.  A second run on that same object with the same reference returns
  the identical output, and leaves the object as the first run left it; and a
  \<open>stamp.scatter\<close> operation run again on its overwritten prefabs makes the same attempts
  and the same placements in the same order.
\<close>

theorem generate_twice:
  "(generate extra sp reference = Inr (out, sp') \<longrightarrow>
      generate extra sp' reference = Inr (out, sp')) \<and>
   (scatter_run c bgIds fgIds p g = Inr (ns, attempts, st) \<longrightarrow>
      scatter_run c bgIds fgIds (p\<lparr>op_prefabs := map store_prefab ns\<rparr>) g
        = Inr (ns, attempts, st))"
proof -
  have "generate extra sp' reference = Inr (out, sp')"
    if first: "generate extra sp reference = Inr (out, sp')"
  proof -
    from first obtain ids g ens where v: "validateTiles (s_tiles sp) = Inr ids"
      and lim: "length (remdups (map fst (s_layers sp))) \<le> 128" "length (s_ops sp) \<le> 256"
      and run: "exec_ops (make_ctx reference (s_layers sp)) (fst ids) (snd ids) 0 (s_ops sp)
                  (init_grid width height (t_id (background (s_tiles sp) ! 0))) = Inr (g, ens)"
      and out: "out = make_output (sanitize extra (s_tiles sp)) g"
      and sp': "sp' = sp\<lparr>s_world := \<lparr>w_width = int width, w_height = int height,
                                         w_metersPerCell = 1\<rparr>,
                           s_tiles := sanitize extra (s_tiles sp), s_ops := ens\<rparr>"
      by (auto simp: generate_def split: sum.splits if_splits)
    note again = exec_ops_again [OF run]
    have bg: "background (sanitize extra (s_tiles sp)) = background (s_tiles sp)"
      by (simp add: sanitize_def)
    show ?thesis
      using validateTiles_sanitize [OF v, of extra] lim again
      by (simp add: generate_def sp' out sanitize_idem bg)
  qed
  then show ?thesis
    using scatter_run_again by blast
qed

theorem generate_twice_witness:
  "generate [] (scenario \<lparr>w_width = 4, w_height = 4, w_metersPerCell = 1\<rparr>) ''seed'' =
     Inr (scenario_output, scenario \<lparr>w_width = 200, w_height = 200, w_metersPerCell = 1\<rparr>) \<and>
   generate [] (scenario \<lparr>w_width = 200, w_height = 200, w_metersPerCell = 1\<rparr>) ''seed'' =
     Inr (scenario_output, scenario \<lparr>w_width = 200, w_height = 200, w_metersPerCell = 1\<rparr>) \<and>
   (\<exists>ns st. scatter_run tiny_ctx {''bg0''} {} scatter_op tiny_grid = Inr (ns, 2, st) \<and>
      scatter_run tiny_ctx {''bg0''} {} (scatter_op\<lparr>op_prefabs := map store_prefab ns\<rparr>) tiny_grid
        = Inr (ns, 2, st) \<and>
      st_log st = [(0, 0, 2, 2)])"
proof -
  have run: "generate [] (scenario \<lparr>w_width = 4, w_height = 4, w_metersPerCell = 1\<rparr>) ''seed'' =
     Inr (scenario_output, scenario \<lparr>w_width = 200, w_height = 200, w_metersPerCell = 1\<rparr>)"
    by (rule scenario_run)
  obtain ns st where sc: "scatter_run tiny_ctx {''bg0''} {} scatter_op tiny_grid = Inr (ns, 2, st)"
    and log: "st_log st = [(0, 0, 2, 2)]"
    using tiny_scatter by blast
  from generate_twice [of "[]" "scenario \<lparr>w_width = 4, w_height = 4, w_metersPerCell = 1\<rparr>"
      "''seed''" scenario_output
      "scenario \<lparr>w_width = 200, w_height = 200, w_metersPerCell = 1\<rparr>"
      tiny_ctx "{''bg0''}" "{}" scatter_op tiny_grid ns 2 st]
  show ?thesis
    using run sc log by blast
qed

end
